theory Spec2Isabelle
  imports Complex_Main "HOL-Library.Log_Nat"
begin

section \<open>Values, errors and tables\<close>

text \<open>
  The notebooks work on tables read from CSV files. The cells the evaluation looks at hold
  either a Python \<open>str\<close> or a missing value (\<open>None\<close> in a parsed list literal, a null
  cell in a table column). A string is the list of the bytes of its UTF-8 encoding: two
  texts are equal exactly when their encodings are, and one occurs in the other as a
  substring exactly when its encoding occurs in the other's as a contiguous run.
\<close>

datatype pyval = PStr string | PNone

text \<open>
  The exceptions the modelled code can raise: an index out of range, a value that is
  refused (table columns of different length, a search for an absent list element), a method
  call on a value that has no such method (\<open>upper\<close> on a missing cell), and a mask that
  is not boolean (the tabular library answers it with a \<open>ValueError\<close> or a
  \<open>KeyError\<close>, depending on what the mask holds; one value stands for both).
\<close>

datatype error = IndexError | ValueError | AttributeError | MaskError

section \<open>Entity matching: \<open>is_match\<close>\<close>

text \<open>
  Python's \<open>a in b\<close> on two strings: \<open>a\<close> occurs in \<open>b\<close> as a contiguous run,
  searched from each start position of \<open>b\<close> in turn.
\<close>

fun str_in :: "string \<Rightarrow> string \<Rightarrow> bool" where
  "str_in a [] = (a = [])"
| "str_in a (c # cs) = (take (length a) (c # cs) = a \<or> str_in a cs)"

text \<open>
  \<open>is_match(ent1, ent2, matching)\<close>. The result is the returned value (\<open>Some b\<close> for the
  boolean \<open>b\<close>, \<open>None\<close> for Python's \<open>None\<close>) together with the lines printed.
  The type test comes first; only then is \<open>matching\<close> inspected.
\<close>

definition matching_error_message :: string where
  "matching_error_message =
     ''Error: matching must be '' @ [CHR 0x27] @ ''STRONG'' @ [CHR 0x27] @ '' or '' @
     [CHR 0x27] @ ''WEAK'' @ [CHR 0x27]"

fun is_match :: "pyval \<Rightarrow> pyval \<Rightarrow> string \<Rightarrow> bool option \<times> string list" where
  "is_match (PStr ent1) (PStr ent2) matching =
     (if matching = ''STRONG'' then (Some (ent1 = ent2), [])
      else if matching = ''WEAK'' then (Some (str_in ent1 ent2 \<or> str_in ent2 ent1), [])
      else (None, [matching_error_message]))"
| "is_match ent1 ent2 matching = (Some False, [])"

section \<open>Python list primitives\<close>

text \<open>
  \<open>xs[i]\<close>: a negative index counts from the end, an index outside the list raises
  \<open>IndexError\<close>.
\<close>

definition py_item :: "'a list \<Rightarrow> int \<Rightarrow> error + 'a" where
  "py_item xs i =
     (let n = int (length xs); k = (if i < 0 then i + n else i)
      in if k < 0 \<or> n \<le> k then Inl IndexError else Inr (xs ! nat k))"

text \<open>
  \<open>xs[lo:hi]\<close>: each bound is shifted by the length when negative and then clamped to
  the list; a slice never raises.
\<close>

definition slice_bound :: "nat \<Rightarrow> int \<Rightarrow> nat" where
  "slice_bound n i = (if i < 0 then nat (max 0 (i + int n)) else min n (nat i))"

definition py_slice :: "'a list \<Rightarrow> int \<Rightarrow> int \<Rightarrow> 'a list" where
  "py_slice xs lo hi =
     drop (slice_bound (length xs) lo) (take (slice_bound (length xs) hi) xs)"

text \<open>\<open>xs.index(x)\<close>: the first position of \<open>x\<close>, \<open>ValueError\<close> when there is none.\<close>

definition py_index :: "'a list \<Rightarrow> 'a \<Rightarrow> error + nat" where
  "py_index xs x =
     (if x \<in> set xs then Inr (length (takeWhile (\<lambda>y. y \<noteq> x) xs)) else Inl ValueError)"

text \<open>
  \<open>s.upper()\<close> is Python's upper-casing of Unicode text. The scoring loop below takes it
  as a parameter \<open>upper\<close>, so that what is proved of the loop holds of it. On a text of
  ASCII characters \<open>s.upper()\<close> sends the letters \<open>a\<close> to \<open>z\<close> to \<open>A\<close> to \<open>Z\<close>
  and keeps every other character; \<open>ascii_upper\<close> is this function, and the examples,
  whose texts are ASCII, are computed with it.
\<close>

definition ascii_upper_char :: "char \<Rightarrow> char" where
  "ascii_upper_char c =
     (let n = (of_char c :: nat) in if 97 \<le> n \<and> n \<le> 122 then char_of (n - 32) else c)"

definition ascii_upper :: "string \<Rightarrow> string" where
  "ascii_upper s = map ascii_upper_char s"

section \<open>Python floats\<close>

text \<open>
  A Python \<open>float\<close> is an IEEE 754 double. A double is held here as the rational number
  it denotes (so the integer \<open>0\<close> and the float \<open>0.0\<close>, which Python compares equal,
  are the same value), and \<open>round_double x\<close> is the double nearest to the rational
  \<open>x\<close>, a tie going to the one with the even significand. True division of two
  integers, and \<open>+\<close>, \<open>*\<close> and \<open>/\<close> on floats, return the exact result rounded in
  this way. In \<open>round_double\<close>, \<open>e\<close> is the binary exponent of \<open>x\<close>, not below
  \<open>-1022\<close> (the subnormal range), and \<open>ulp\<close> is the distance between neighbouring
  doubles there, 53 significant bits. Magnitudes of \<open>2^1024\<close> and more, where a double
  overflows, are not represented; the scores below do not exceed 4.
\<close>

definition round_half_even :: "rat \<Rightarrow> int" where
  "round_half_even x =
     (let n = \<lfloor>x\<rfloor>; d = x - of_int n
      in if d < 1 / 2 then n else if 1 / 2 < d then n + 1 else if even n then n else n + 1)"

text \<open>
  The exponent \<open>e\<close> with \<open>2^e \<le> x < 2^(e+1)\<close>, for \<open>x > 0\<close>: the bit lengths of
  numerator and denominator give it up to one, and a comparison settles it.
\<close>

definition floor_log2 :: "rat \<Rightarrow> int" where
  "floor_log2 x =
     (case quotient_of x of (a, b) \<Rightarrow>
        let k = bitlen a - bitlen b in if 2 powi k \<le> x then k else k - 1)"

definition round_double :: "rat \<Rightarrow> rat" where
  "round_double x =
     (if x = 0 then 0
      else
        let e = max (floor_log2 \<bar>x\<bar>) (- 1022); ulp = 2 powi (e - 52)
        in sgn x * (of_int (round_half_even (\<bar>x\<bar> / ulp)) * ulp))"

section \<open>Searching the tool's entities: \<open>find_match\<close>\<close>

text \<open>
  \<open>tool_entities.apply(is_match, ent2 = gs_entities[gold_idx], matching = matching)\<close>:
  every tool entity is passed as \<open>ent1\<close>; the mask collects the returned values. What
  \<open>is_match\<close> prints is not carried further.
\<close>

definition match_mask :: "pyval list \<Rightarrow> pyval \<Rightarrow> string \<Rightarrow> bool option list" where
  "match_mask tool_entities ent2 matching =
     map (\<lambda>ent1. fst (is_match ent1 ent2 matching)) tool_entities"

text \<open>
  \<open>tool_entities[mask]\<close> followed by \<open>.index.to_list()\<close>: the series made from a
  list is labelled \<open>0, 1, ...\<close>, and boolean indexing keeps the labels whose mask entry is
  \<open>True\<close>, in order. A mask that holds \<open>None\<close> is not a boolean mask and the
  indexing raises; the empty mask selects nothing.
\<close>

definition mask_select :: "bool option list \<Rightarrow> error + nat list" where
  "mask_select bs =
     (if None \<in> set bs then Inl MaskError
      else Inr (filter (\<lambda>j. bs ! j = Some True) [0..<length bs]))"

text \<open>
  The body of \<open>for gold_idx in range(stop_idx)\<close>, over the indices still to visit.
  \<open>gs_entities[gold_idx]\<close> is evaluated before anything else in the iteration.
\<close>

fun find_match_loop ::
  "pyval list \<Rightarrow> pyval list \<Rightarrow> string \<Rightarrow> nat list \<Rightarrow> error + (int \<times> int)" where
  "find_match_loop gs_entities tool_entities matching [] = Inr (- 1, - 1)"
| "find_match_loop gs_entities tool_entities matching (gold_idx # rest) =
     (case py_item gs_entities (int gold_idx) of
        Inl e \<Rightarrow> Inl e
      | Inr ent2 \<Rightarrow>
          (case mask_select (match_mask tool_entities ent2 matching) of
             Inl e \<Rightarrow> Inl e
           | Inr matches \<Rightarrow>
               if length matches > 0 then Inr (int gold_idx, int (hd matches))
               else find_match_loop gs_entities tool_entities matching rest))"

definition find_match ::
  "pyval list \<Rightarrow> pyval list \<Rightarrow> string \<Rightarrow> string \<Rightarrow> error + (int \<times> int)" where
  "find_match gs_entities tool_entities matching gold_set =
     (let stop_idx = (if gold_set = ''EXTENDED'' then length gs_entities else 1)
      in find_match_loop gs_entities tool_entities matching [0..<stop_idx])"

text \<open>
  \<open>hit tool_entities gs_entities matching j i\<close>: the tool entity at position \<open>j\<close> and
  the gold entity at position \<open>i\<close> match, that is, \<open>is_match\<close> returns \<open>True\<close> on them.
  It is used to state what \<open>find_match\<close> finds.
\<close>

definition hit :: "pyval list \<Rightarrow> pyval list \<Rightarrow> string \<Rightarrow> nat \<Rightarrow> nat \<Rightarrow> bool" where
  "hit tool_entities gs_entities matching j i \<longleftrightarrow>
     fst (is_match (tool_entities ! j) (gs_entities ! i) matching) = Some True"

section \<open>Pruning the gold set: \<open>prune_gold_set\<close>\<close>

text \<open>
  The first block of \<open>prune_gold_set\<close>, entered when \<open>fill_in_qids\<close> holds and
  \<open>None in gs_qids\<close>. The conditions of the \<open>if\<close>/\<open>elif\<close> chain are evaluated in
  order and \<open>and\<close> does not evaluate its right operand when the left one is false, so
  \<open>gs_qids[1]\<close> is read only when \<open>none_idx == 0\<close>, and \<open>gs_qids[2]\<close> only when
  \<open>none_idx == 0\<close> and \<open>gs_qids[1]\<close> is \<open>None\<close>, or when \<open>none_idx == 1\<close>. The
  list is updated in place; the result is the updated list.
\<close>

definition fill_qids :: "pyval list \<Rightarrow> error + pyval list" where
  "fill_qids gs_qids =
     (case py_index gs_qids PNone of
        Inl e \<Rightarrow> Inl e
      | Inr none_idx \<Rightarrow>
          if none_idx = 0 then
            (case py_item gs_qids 1 of
               Inl e \<Rightarrow> Inl e
             | Inr q1 \<Rightarrow>
                 if q1 \<noteq> PNone then Inr (gs_qids[0 := q1])
                 else
                   (case py_item gs_qids 2 of
                      Inl e \<Rightarrow> Inl e
                    | Inr q2 \<Rightarrow>
                        if q2 \<noteq> PNone then Inr (gs_qids[0 := q2, 1 := q2])
                        else Inr gs_qids))
          else if none_idx = 1 then
            (case py_item gs_qids 2 of
               Inl e \<Rightarrow> Inl e
             | Inr q2 \<Rightarrow> if q2 \<noteq> PNone then Inr (gs_qids[1 := q2]) else Inr gs_qids)
          else Inr gs_qids)"

text \<open>
  \<open>pd.DataFrame({'ents': gs_entities, 'qids': gs_qids})\<close> raises \<open>ValueError\<close> when the
  two lists differ in length; otherwise its rows pair the lists position by position.
  \<open>.iloc[:stop_idx]\<close> keeps the first \<open>stop_idx\<close> rows (all of them when there are
  fewer), \<open>.dropna()\<close> removes each row that has a missing cell, and the two columns are
  read back as lists.
\<close>

definition prune_gold_set ::
  "pyval list \<Rightarrow> pyval list \<Rightarrow> string \<Rightarrow> bool \<Rightarrow> error + (pyval list \<times> pyval list)" where
  "prune_gold_set gs_entities gs_qids gold_set fill_in_qids =
     (case (if fill_in_qids \<and> PNone \<in> set gs_qids then fill_qids gs_qids else Inr gs_qids) of
        Inl e \<Rightarrow> Inl e
      | Inr qids \<Rightarrow>
          if length gs_entities \<noteq> length qids then Inl ValueError
          else
            let stop_idx = (if gold_set = ''EXTENDED'' then 3 else 1);
                valid_data = filter (\<lambda>(ent, qid). ent \<noteq> PNone \<and> qid \<noteq> PNone)
                               (take stop_idx (zip gs_entities qids))
            in Inr (map fst valid_data, map snd valid_data))"

section \<open>Scoring: \<open>calculate_precision_recall_f1\<close>\<close>

text \<open>
  A row of the gold standard: the document id and the two list literals of the columns
  \<open>entity\<close> and \<open>qid\<close>, held here as the lists \<open>ast.literal_eval\<close> reads from them.
  A row of the tool's table: the three columns named by \<open>id_col\<close>, \<open>ent_col\<close> and
  \<open>qid_col\<close>. A table is the list of its rows; the row labels are the positions, as
  \<open>pd.read_csv\<close> assigns them.
\<close>

record gs_row =
  gs_id :: string
  entity :: "pyval list"
  qid :: "pyval list"

record tool_row =
  id_col :: string
  ent_col :: pyval
  qid_col :: pyval

text \<open>
  \<open>df_tool[df_tool[id_col] == gs_id][qid_col].dropna().index\<close>: the labels of the rows
  with the gold row's document id whose QID cell is not missing.
\<close>

definition selected_rows :: "tool_row list \<Rightarrow> string \<Rightarrow> nat list" where
  "selected_rows df_tool g =
     filter (\<lambda>i. qid_col (df_tool ! i) \<noteq> PNone)
       (filter (\<lambda>i. id_col (df_tool ! i) = g) [0..<length df_tool])"

text \<open>\<open>df_tool.loc[labels]\<close>: the rows with these labels, in the order given.\<close>

definition loc :: "tool_row list \<Rightarrow> nat list \<Rightarrow> tool_row list" where
  "loc df_tool labels = map (\<lambda>i. df_tool ! i) labels"

text \<open>
  \<open>[entity.upper() for entity in ...]\<close>: a cell that is not a string has no \<open>upper\<close>.
\<close>

fun upper_all :: "(string \<Rightarrow> string) \<Rightarrow> pyval list \<Rightarrow> error + pyval list" where
  "upper_all upper [] = Inr []"
| "upper_all upper (PStr s # es) =
     (case upper_all upper es of Inl e \<Rightarrow> Inl e | Inr us \<Rightarrow> Inr (PStr (upper s) # us))"
| "upper_all upper (PNone # es) = Inl AttributeError"

text \<open>
  One iteration of \<open>for index, gs_row in gs.iterrows()\<close> on the counters
  \<open>(TP, FP, FN)\<close>.
\<close>

definition row_step ::
  "(string \<Rightarrow> string) \<Rightarrow> tool_row list \<Rightarrow> string \<Rightarrow> string \<Rightarrow> bool \<Rightarrow> nat \<times> nat \<times> nat \<Rightarrow> gs_row \<Rightarrow>
     error + (nat \<times> nat \<times> nat)" where
  "row_step upper df_tool matching gold_set fill_in_qids counters row =
     (case counters of (TP, FP, FN) \<Rightarrow>
      (case prune_gold_set (entity row) (qid row) gold_set fill_in_qids of
         Inl e \<Rightarrow> Inl e
       | Inr (gs_entities, gs_qids) \<Rightarrow>
           if length gs_entities = 0 then Inr (TP, FP, FN)
           else
             let rows = loc df_tool (selected_rows df_tool (gs_id row)) in
             (case upper_all upper (map ent_col rows) of
                Inl e \<Rightarrow> Inl e
              | Inr tool_entities \<Rightarrow>
                  let tool_qids = map qid_col rows in
                  (case find_match gs_entities tool_entities matching gold_set of
                     Inl e \<Rightarrow> Inl e
                   | Inr (gs_match_idx, tool_match_idx) \<Rightarrow>
                       if gs_match_idx = - 1 then Inr (TP, FP, FN + 1)
                       else
                         let start_idx =
                               (if gold_set = ''EXTENDED'' then 0 else gs_match_idx) in
                         (case py_item tool_qids tool_match_idx of
                            Inl e \<Rightarrow> Inl e
                          | Inr q \<Rightarrow>
                              if q \<in> set (py_slice gs_qids start_idx (gs_match_idx + 1))
                              then Inr (TP + 1, FP, FN)
                              else Inr (TP, FP + 1, FN))))))"

fun count_loop ::
  "(string \<Rightarrow> string) \<Rightarrow> tool_row list \<Rightarrow> string \<Rightarrow> string \<Rightarrow> bool \<Rightarrow> nat \<times> nat \<times> nat \<Rightarrow> gs_row list \<Rightarrow>
     error + (nat \<times> nat \<times> nat)" where
  "count_loop upper df_tool matching gold_set fill_in_qids counters [] = Inr counters"
| "count_loop upper df_tool matching gold_set fill_in_qids counters (row # gs) =
     (case row_step upper df_tool matching gold_set fill_in_qids counters row of
        Inl e \<Rightarrow> Inl e
      | Inr counters' \<Rightarrow> count_loop upper df_tool matching gold_set fill_in_qids counters' gs)"

text \<open>The counters when the loop is left, starting from \<open>TP = FP = FN = 0\<close>.\<close>

definition final_counts ::
  "(string \<Rightarrow> string) \<Rightarrow> gs_row list \<Rightarrow> tool_row list \<Rightarrow> string \<Rightarrow> string \<Rightarrow> bool \<Rightarrow>
     error + (nat \<times> nat \<times> nat)" where
  "final_counts upper gs df_tool matching gold_set fill_in_qids =
     count_loop upper df_tool matching gold_set fill_in_qids (0, 0, 0) gs"

text \<open>
  The function itself. \<open>TP / (TP + FP)\<close> and \<open>TP / (TP + FN)\<close> are true divisions of
  integers; \<open>precision * recall\<close>, \<open>2 * (...)\<close>, \<open>precision + recall\<close> and the last
  division are float operations (the integers \<open>0\<close> and \<open>2\<close> convert exactly), each
  rounding its exact result. The line printed with the counters is left out.
\<close>

definition calculate_precision_recall_f1 ::
  "(string \<Rightarrow> string) \<Rightarrow> gs_row list \<Rightarrow> tool_row list \<Rightarrow> string \<Rightarrow> string \<Rightarrow> bool \<Rightarrow>
     error + (rat \<times> rat \<times> rat)" where
  "calculate_precision_recall_f1 upper gs df_tool matching gold_set fill_in_qids =
     (case final_counts upper gs df_tool matching gold_set fill_in_qids of
        Inl e \<Rightarrow> Inl e
      | Inr (TP, FP, FN) \<Rightarrow>
          let precision =
                (if TP + FP > 0 then round_double (of_nat TP / of_nat (TP + FP)) else 0);
              recall =
                (if TP + FN > 0 then round_double (of_nat TP / of_nat (TP + FN)) else 0);
              f1_score =
                (if round_double (precision + recall) > 0
                 then round_double
                        (round_double (2 * round_double (precision * recall)) /
                         round_double (precision + recall))
                 else 0)
          in Inr (precision, recall, f1_score))"

text \<open>
  Two predicates used to state the properties of the scoring loop. A gold row counts when
  its pruning succeeds with a non-empty entity list. The inputs on which the function is
  shown to return: a known matching policy, gold rows whose two lists have the same length
  (and at least three QIDs when \<open>fill_in_qids\<close> is set), and a tool table in which every
  row that has a QID also has an entity string.
\<close>

definition pruned_nonempty :: "string \<Rightarrow> bool \<Rightarrow> gs_row \<Rightarrow> bool" where
  "pruned_nonempty gold_set fill_in_qids row =
     (case prune_gold_set (entity row) (qid row) gold_set fill_in_qids of
        Inl e \<Rightarrow> False
      | Inr (gs_entities, gs_qids) \<Rightarrow> gs_entities \<noteq> [])"

definition well_formed :: "gs_row list \<Rightarrow> tool_row list \<Rightarrow> string \<Rightarrow> bool \<Rightarrow> bool" where
  "well_formed gs df_tool matching fill_in_qids \<longleftrightarrow>
     (matching = ''STRONG'' \<or> matching = ''WEAK'') \<and>
     (\<forall>row\<in>set gs. length (entity row) = length (qid row) \<and>
        (fill_in_qids \<longrightarrow> 3 \<le> length (qid row))) \<and>
     (\<forall>r\<in>set df_tool. qid_col r \<noteq> PNone \<longrightarrow> ent_col r \<noteq> PNone)"

section \<open>The UniRel reformatting loop\<close>

text \<open>
  A row of \<open>result_df\<close>: the columns \<open>c5\<close>, \<open>c119\<close> and \<open>c119_output\<close>, the last
  one held as the value \<open>ast.literal_eval\<close> reads from its text: a list whose first
  element is the list of extracted tuples. A tuple is the list of its components. An output
  row has the six columns of \<open>out_df\<close>.
\<close>

record result_row =
  c5 :: string
  c119 :: string
  c119_output :: "string list list list"

record out_row =
  c5_id :: string
  c119_input :: string
  out_c119_output :: "string list list list"
  head :: pyval
  relation :: pyval
  tail :: pyval

text \<open>
  \<open>out_df.loc[len(out_df)] = {...}\<close> adds one row at the end of \<open>out_df\<close>. The inner
  loop \<open>for triple in output\<close> reads \<open>triple[0]\<close>, \<open>triple[1]\<close>, \<open>triple[2]\<close>.
\<close>

fun triple_loop :: "result_row \<Rightarrow> string list list \<Rightarrow> out_row list \<Rightarrow> error + out_row list" where
  "triple_loop r [] out_df = Inr out_df"
| "triple_loop r (triple # rest) out_df =
     (case py_item triple 0 of
        Inl e \<Rightarrow> Inl e
      | Inr h \<Rightarrow>
          (case py_item triple 1 of
             Inl e \<Rightarrow> Inl e
           | Inr rel \<Rightarrow>
               (case py_item triple 2 of
                  Inl e \<Rightarrow> Inl e
                | Inr t \<Rightarrow>
                    triple_loop r rest
                      (out_df @ [\<lparr>c5_id = c5 r, c119_input = c119 r,
                                 out_c119_output = c119_output r,
                                 head = PStr h, relation = PStr rel, tail = PStr t\<rparr>]))))"

fun reformat_loop :: "result_row list \<Rightarrow> out_row list \<Rightarrow> error + out_row list" where
  "reformat_loop [] out_df = Inr out_df"
| "reformat_loop (r # rs) out_df =
     (case py_item (c119_output r) 0 of
        Inl e \<Rightarrow> Inl e
      | Inr output \<Rightarrow>
          if length output = 0 then
            reformat_loop rs
              (out_df @ [\<lparr>c5_id = c5 r, c119_input = c119 r,
                         out_c119_output = c119_output r,
                         head = PNone, relation = PNone, tail = PNone\<rparr>])
          else
            (case triple_loop r output out_df of
               Inl e \<Rightarrow> Inl e
             | Inr out_df' \<Rightarrow> reformat_loop rs out_df'))"

text \<open>The cell as a whole: \<open>out_df\<close> starts with no rows.\<close>

definition unirel_reformat :: "result_row list \<Rightarrow> error + out_row list" where
  "unirel_reformat result_df = reformat_loop result_df []"

text \<open>
  The rows the flattening is described to give for one input row, for comparison with the
  loop: a single row without head, relation and tail when the first element of the parsed
  literal is the empty list, and otherwise one row for each of its triples.
\<close>

definition triple_row :: "result_row \<Rightarrow> string list \<Rightarrow> out_row" where
  "triple_row r triple =
     \<lparr>c5_id = c5 r, c119_input = c119 r, out_c119_output = c119_output r,
      head = PStr (triple ! 0), relation = PStr (triple ! 1), tail = PStr (triple ! 2)\<rparr>"

definition empty_row :: "result_row \<Rightarrow> out_row" where
  "empty_row r =
     \<lparr>c5_id = c5 r, c119_input = c119 r, out_c119_output = c119_output r,
      head = PNone, relation = PNone, tail = PNone\<rparr>"

definition flat_rows :: "result_row \<Rightarrow> out_row list" where
  "flat_rows r =
     (let triples = hd (c119_output r)
      in if triples = [] then [empty_row r] else map (triple_row r) triples)"

section \<open>Properties of the list primitives\<close>

lemma py_item_Inl: "py_item xs i = Inl e \<Longrightarrow> e = IndexError"
  by (auto simp: py_item_def Let_def split: if_splits)

lemma py_item_nat:
  "py_item xs (int k) = (if k < length xs then Inr (xs ! k) else Inl IndexError)"
  by (simp add: py_item_def Let_def)

lemma py_item_1: "py_item xs 1 = (if 1 < length xs then Inr (xs ! 1) else Inl IndexError)"
  using py_item_nat [of xs 1] by simp

lemma py_item_2: "py_item xs 2 = (if 2 < length xs then Inr (xs ! 2) else Inl IndexError)"
  using py_item_nat [of xs 2] by simp

lemma ascii_upper_tank: "ascii_upper ''tank'' = ''TANK''"
  by code_simp

lemma upt_split_at: "i < n \<Longrightarrow> [0..<n] = [0..<i] @ i # [Suc i..<n]"
proof -
  assume "i < n"
  then obtain k where k: "n = i + k" "0 < k"
    using less_imp_add_positive by blast
  have "[0..<i + k] = [0..<i] @ [i..<i + k]"
    by (rule upt_add_eq_append) simp
  moreover from k have "[i..<i + k] = i # [Suc i..<i + k]"
    by (simp add: upt_conv_Cons)
  ultimately show ?thesis using k by simp
qed

lemma hd_filter_upt_first:
  assumes "j < n" "P j" "\<forall>j'<j. \<not> P j'"
  shows "filter P [0..<n] = j # filter P [Suc j..<n]"
proof -
  from assms(3) have "filter P [0..<j] = []"
    by (simp add: filter_empty_conv)
  with upt_split_at [OF assms(1)] assms(2) show ?thesis by simp
qed

lemma in_set_drop_take:
  "q \<in> set (drop a (take b xs)) \<longleftrightarrow> (\<exists>k. a \<le> k \<and> k < b \<and> k < length xs \<and> xs ! k = q)"
proof
  assume "q \<in> set (drop a (take b xs))"
  then obtain n where n: "n < length (drop a (take b xs))" "drop a (take b xs) ! n = q"
    by (auto simp: in_set_conv_nth)
  then have l: "a + n < b" "a + n < length xs" by auto
  then have "drop a (take b xs) ! n = take b xs ! (a + n)"
    by (intro nth_drop) simp
  with l n have "a + n < b \<and> a + n < length xs \<and> xs ! (a + n) = q"
    by simp
  then show "\<exists>k. a \<le> k \<and> k < b \<and> k < length xs \<and> xs ! k = q"
    by (intro exI [of _ "a + n"]) simp
next
  assume "\<exists>k. a \<le> k \<and> k < b \<and> k < length xs \<and> xs ! k = q"
  then obtain k where k: "a \<le> k" "k < b" "k < length xs" "xs ! k = q" by blast
  then have "k - a < length (drop a (take b xs))" by auto
  moreover from k have "drop a (take b xs) ! (k - a) = take b xs ! (a + (k - a))"
    by (intro nth_drop) simp
  with k have "drop a (take b xs) ! (k - a) = q" by simp
  ultimately have "k - a < length (drop a (take b xs))" "drop a (take b xs) ! (k - a) = q"
    by simp_all
  then show "q \<in> set (drop a (take b xs))"
    by (auto simp: in_set_conv_nth)
qed

lemma py_slice_mem:
  assumes "0 \<le> lo" "lo \<le> hi" "nat hi \<le> length xs"
  shows "q \<in> set (py_slice xs lo hi) \<longleftrightarrow> (\<exists>k. lo \<le> k \<and> k < hi \<and> xs ! nat k = q)"
proof -
  from assms have b: "slice_bound (length xs) lo = nat lo" "slice_bound (length xs) hi = nat hi"
    by (auto simp: slice_bound_def)
  have "(\<exists>k. nat lo \<le> k \<and> k < nat hi \<and> k < length xs \<and> xs ! k = q) \<longleftrightarrow>
        (\<exists>k. lo \<le> k \<and> k < hi \<and> xs ! nat k = q)"
  proof
    assume "\<exists>k. nat lo \<le> k \<and> k < nat hi \<and> k < length xs \<and> xs ! k = q"
    then obtain k where "nat lo \<le> k" "k < nat hi" "xs ! k = q" by blast
    with assms have "lo \<le> int k \<and> int k < hi \<and> xs ! nat (int k) = q" by auto
    then show "\<exists>k. lo \<le> k \<and> k < hi \<and> xs ! nat k = q" by blast
  next
    assume "\<exists>k. lo \<le> k \<and> k < hi \<and> xs ! nat k = q"
    then obtain k where "lo \<le> k" "k < hi" "xs ! nat k = q" by blast
    with assms have "nat lo \<le> nat k \<and> nat k < nat hi \<and> nat k < length xs \<and> xs ! nat k = q"
      by auto
    then show "\<exists>k. nat lo \<le> k \<and> k < nat hi \<and> k < length xs \<and> xs ! k = q" by blast
  qed
  then show ?thesis
    by (simp add: py_slice_def b in_set_drop_take)
qed

section \<open>Properties of the rounding\<close>

lemma round_half_even_nearest: "\<bar>of_int (round_half_even x) - x\<bar> \<le> 1 / 2"
proof -
  have "of_int \<lfloor>x\<rfloor> \<le> x" "x < of_int \<lfloor>x\<rfloor> + 1"
    by linarith+
  then show ?thesis
    by (auto simp: round_half_even_def Let_def abs_le_iff)
qed

lemma floor_log2_bracket:
  assumes "0 < x"
  shows "2 powi (floor_log2 x) \<le> x \<and> x < 2 powi (floor_log2 x + 1)"
proof -
  obtain a b where q: "quotient_of x = (a, b)" by (cases "quotient_of x") auto
  then have b: "0 < b" and x: "x = of_int a / of_int b"
    by (simp_all add: quotient_of_denom_pos quotient_of_div)
  with assms have a: "0 < a"
    by (simp add: zero_less_divide_iff)
  define la where "la = bitlen a"
  define lb where "lb = bitlen b"
  from bitlen_bounds [OF a] have a1: "(2::int) ^ nat (la - 1) \<le> a" and a2: "a < 2 ^ nat la"
    by (simp_all add: la_def)
  from bitlen_bounds [OF b] have b1: "(2::int) ^ nat (lb - 1) \<le> b" and b2: "b < 2 ^ nat lb"
    by (simp_all add: lb_def)
  from a have la: "1 \<le> la" by (simp add: la_def bitlen_alt_def)
  from b have lb: "1 \<le> lb" by (simp add: lb_def bitlen_alt_def)
  have pa1: "(2::rat) powi (la - 1) \<le> of_int a"
  proof -
    from a1 have "(of_int ((2::int) ^ nat (la - 1)) :: rat) \<le> of_int a"
      by (simp only: of_int_le_iff)
    with la show ?thesis by (simp add: power_int_def)
  qed
  have pa2: "of_int a < (2::rat) powi la"
  proof -
    from a2 have "(of_int a :: rat) < of_int ((2::int) ^ nat la)"
      by (simp only: of_int_less_iff)
    with la show ?thesis by (simp add: power_int_def)
  qed
  have pb1: "(2::rat) powi (lb - 1) \<le> of_int b"
  proof -
    from b1 have "(of_int ((2::int) ^ nat (lb - 1)) :: rat) \<le> of_int b"
      by (simp only: of_int_le_iff)
    with lb show ?thesis by (simp add: power_int_def)
  qed
  have pb2: "of_int b < (2::rat) powi lb"
  proof -
    from b2 have "(of_int b :: rat) < of_int ((2::int) ^ nat lb)"
      by (simp only: of_int_less_iff)
    with lb show ?thesis by (simp add: power_int_def)
  qed
  have bpos: "(0::rat) < of_int b" using b by simp
  have lower: "(2::rat) powi (la - lb - 1) \<le> x"
  proof -
    have "(2::rat) powi (la - lb - 1) = 2 powi (la - 1) / 2 powi lb"
      using power_int_diff [of "2::rat" "la - 1" lb] by (simp add: algebra_simps)
    also have "\<dots> \<le> of_int a / 2 powi lb"
      using pa1 by (simp add: divide_right_mono)
    also have "\<dots> \<le> of_int a / of_int b"
      using pb2 bpos a by (intro divide_left_mono) (simp_all add: less_imp_le)
    finally show ?thesis by (simp add: x)
  qed
  have upper: "x < (2::rat) powi (la - lb + 1)"
  proof -
    have "x = of_int a / of_int b" by (rule x)
    also have "\<dots> < 2 powi la / of_int b"
      using pa2 bpos by (simp add: divide_strict_right_mono)
    also have "\<dots> \<le> 2 powi la / 2 powi (lb - 1)"
      using pb1 bpos by (intro divide_left_mono) (simp_all add: zero_less_mult_iff)
    also have "\<dots> = 2 powi (la - lb + 1)"
      using power_int_diff [of "2::rat" la "lb - 1"] by (simp add: algebra_simps)
    finally show ?thesis .
  qed
  show ?thesis
  proof (cases "(2::rat) powi (la - lb) \<le> x")
    case True
    with q upper show ?thesis
      by (simp add: floor_log2_def la_def lb_def)
  next
    case False
    with q lower show ?thesis
      by (simp add: floor_log2_def la_def lb_def not_le)
  qed
qed

section \<open>Properties of \<open>is_match\<close>\<close>

lemma str_in_iff: "str_in a b \<longleftrightarrow> (\<exists>ps ss. b = ps @ a @ ss)"
proof (induction b)
  case Nil
  then show ?case by auto
next
  case (Cons c cs)
  have "take (length a) (c # cs) = a \<longleftrightarrow> (\<exists>ss. c # cs = a @ ss)"
    by (metis append_eq_conv_conj append_take_drop_id)
  moreover have "(\<exists>ps ss. c # cs = ps @ a @ ss) \<longleftrightarrow>
      (\<exists>ss. c # cs = a @ ss) \<or> (\<exists>ps ss. cs = ps @ a @ ss)"
  proof
    assume "\<exists>ps ss. c # cs = ps @ a @ ss"
    then obtain ps ss where e: "c # cs = ps @ a @ ss" by blast
    show "(\<exists>ss. c # cs = a @ ss) \<or> (\<exists>ps ss. cs = ps @ a @ ss)"
    proof (cases ps)
      case Nil
      with e show ?thesis by auto
    next
      case (Cons p ps')
      with e have "cs = ps' @ a @ ss" by simp
      then show ?thesis by blast
    qed
  next
    assume "(\<exists>ss. c # cs = a @ ss) \<or> (\<exists>ps ss. cs = ps @ a @ ss)"
    then show "\<exists>ps ss. c # cs = ps @ a @ ss"
    proof
      assume "\<exists>ss. c # cs = a @ ss"
      then obtain ss where "c # cs = [] @ a @ ss" by auto
      then show ?thesis by blast
    next
      assume "\<exists>ps ss. cs = ps @ a @ ss"
      then obtain ps ss where "c # cs = (c # ps) @ a @ ss" by auto
      then show ?thesis by blast
    qed
  qed
  ultimately show ?case using Cons.IH by simp
qed

text \<open>
  C6. On two strings, \<open>is_match\<close> with \<open>"STRONG"\<close> returns \<open>True\<close> exactly when they are
  equal, and with \<open>"WEAK"\<close> exactly when one occurs in the other as a substring; when
  either argument is not a string it returns \<open>False\<close> under both policies. Nothing is
  printed in these cases.
\<close>

theorem is_match_policies:
  "is_match (PStr a) (PStr b) ''STRONG'' = (Some (a = b), []) \<and>
   is_match (PStr a) (PStr b) ''WEAK'' =
     (Some ((\<exists>ps ss. b = ps @ a @ ss) \<or> (\<exists>ps ss. a = ps @ b @ ss)), []) \<and>
   ((\<forall>s. ent1 \<noteq> PStr s) \<or> (\<forall>s. ent2 \<noteq> PStr s) \<longrightarrow>
      is_match ent1 ent2 ''STRONG'' = (Some False, []) \<and>
      is_match ent1 ent2 ''WEAK'' = (Some False, []))"
proof (intro conjI impI)
  show "is_match (PStr a) (PStr b) ''STRONG'' = (Some (a = b), [])"
    by simp
  show "is_match (PStr a) (PStr b) ''WEAK'' =
     (Some ((\<exists>ps ss. b = ps @ a @ ss) \<or> (\<exists>ps ss. a = ps @ b @ ss)), [])"
    by (simp add: str_in_iff)
next
  assume "(\<forall>s. ent1 \<noteq> PStr s) \<or> (\<forall>s. ent2 \<noteq> PStr s)"
  then have n: "ent1 = PNone \<or> ent2 = PNone"
    by (metis pyval.exhaust)
  from n show "is_match ent1 ent2 ''STRONG'' = (Some False, [])"
    by (cases ent1; cases ent2) auto
  from n show "is_match ent1 ent2 ''WEAK'' = (Some False, [])"
    by (cases ent1; cases ent2) auto
qed

theorem is_match_policies_witness:
  "is_match (PStr ''FUEL'') (PStr ''FUEL'') ''STRONG'' = (Some True, []) \<and>
   is_match (PStr ''FUEL'') (PStr ''FUEL TANK'') ''STRONG'' = (Some False, []) \<and>
   is_match (PStr ''FUEL'') (PStr ''FUEL TANK'') ''WEAK'' = (Some True, []) \<and>
   is_match (PStr ''FUEL TANK'') (PStr ''FUEL'') ''WEAK'' = (Some True, []) \<and>
   is_match PNone (PStr ''FUEL'') ''STRONG'' = (Some False, []) \<and>
   is_match (PStr ''FUEL'') PNone ''WEAK'' = (Some False, [])"
  using is_match_policies [of "''FUEL''" "''FUEL''" PNone "PStr ''FUEL''"]
    is_match_policies [of "''FUEL''" "''FUEL TANK''" "PStr ''FUEL''" PNone]
  by simp

text \<open>
  C9 (as amended). With a \<open>matching\<close> argument other than \<open>"STRONG"\<close> and \<open>"WEAK"\<close>,
  \<open>is_match\<close> on two strings prints the error message and returns \<open>None\<close>, without
  raising; when an argument is not a string the type test answers first, and the result is
  \<open>False\<close> with nothing printed.
\<close>

theorem is_match_other_policy:
  "matching \<noteq> ''STRONG'' \<Longrightarrow> matching \<noteq> ''WEAK'' \<Longrightarrow>
     is_match (PStr a) (PStr b) matching = (None, [matching_error_message]) \<and>
     is_match PNone ent2 matching = (Some False, []) \<and>
     is_match ent1 PNone matching = (Some False, [])"
  by (cases ent1; cases ent2) simp_all

theorem is_match_other_policy_witness:
  "is_match (PStr ''FUEL'') (PStr ''FUEL'') ''FUZZY'' =
     (None, [''Error: matching must be '' @ [CHR 0x27] @ ''STRONG'' @ [CHR 0x27] @ '' or '' @
     [CHR 0x27] @ ''WEAK'' @ [CHR 0x27]]) \<and>
   is_match PNone (PStr ''FUEL'') ''FUZZY'' = (Some False, []) \<and>
   is_match (PStr ''FUEL'') PNone ''FUZZY'' = (Some False, [])"
  using is_match_other_policy [of "''FUZZY''" "''FUEL''" "''FUEL''" "PStr ''FUEL''" "PStr ''FUEL''"]
  by (simp add: matching_error_message_def)

text \<open>
  The claim as first stated spoke of every pair of inputs. On a missing value and a string
  the result under the policy \<open>"FUZZY"\<close> is \<open>False\<close>, not \<open>None\<close>, and nothing is
  printed.
\<close>

theorem is_match_other_policy_counterexample:
  "''FUZZY'' \<noteq> ''STRONG'' \<and> ''FUZZY'' \<noteq> ''WEAK'' \<and>
   is_match PNone (PStr ''FUEL'') ''FUZZY'' = (Some False, []) \<and>
   fst (is_match PNone (PStr ''FUEL'') ''FUZZY'') \<noteq> None \<and>
   snd (is_match PNone (PStr ''FUEL'') ''FUZZY'') = []"
  by simp

section \<open>Properties of \<open>prune_gold_set\<close>\<close>

lemma take_zip_nth:
  "length xs = length ys \<Longrightarrow>
   take k (zip xs ys) = map (\<lambda>i. (xs ! i, ys ! i)) [0..<min k (length xs)]"
  by (rule nth_equalityI) auto

text \<open>
  C7 (as amended). For an entity list and a QID list of the same length,
  \<open>prune_gold_set\<close> with \<open>fill_in_qids = False\<close> returns the entities and the QIDs of
  exactly those positions, in increasing order, among the first 3 (when \<open>gold_set\<close> is
  \<open>"EXTENDED"\<close>) or the first 1 (otherwise, so for \<open>"PRIMARY"\<close>) at which neither the
  entity nor the QID is \<open>None\<close>. For lists of different length it raises
  \<open>ValueError\<close>.
\<close>

theorem prune_gold_set_no_fill:
  "prune_gold_set gs_entities gs_qids gold_set False =
     (if length gs_entities = length gs_qids then
        let k = (if gold_set = ''EXTENDED'' then 3 else 1);
            kept = filter (\<lambda>i. gs_entities ! i \<noteq> PNone \<and> gs_qids ! i \<noteq> PNone)
                     [0..<min k (length gs_entities)]
        in Inr (map (\<lambda>i. gs_entities ! i) kept, map (\<lambda>i. gs_qids ! i) kept)
      else Inl ValueError)"
  by (simp add: prune_gold_set_def take_zip_nth filter_map o_def Let_def)

theorem prune_gold_set_no_fill_witness:
  "prune_gold_set [PStr ''TANK'', PNone, PStr ''FUEL TANK''] [PStr ''Q1'', PStr ''Q2'', PStr ''Q3'']
      ''EXTENDED'' False = Inr ([PStr ''TANK'', PStr ''FUEL TANK''], [PStr ''Q1'', PStr ''Q3'']) \<and>
   prune_gold_set [PStr ''TANK'', PNone, PStr ''FUEL TANK''] [PStr ''Q1'', PStr ''Q2'', PStr ''Q3'']
      ''PRIMARY'' False = Inr ([PStr ''TANK''], [PStr ''Q1''])"
  using prune_gold_set_no_fill [of "[PStr ''TANK'', PNone, PStr ''FUEL TANK'']"
      "[PStr ''Q1'', PStr ''Q2'', PStr ''Q3'']" "''EXTENDED''"]
    prune_gold_set_no_fill [of "[PStr ''TANK'', PNone, PStr ''FUEL TANK'']"
      "[PStr ''Q1'', PStr ''Q2'', PStr ''Q3'']" "''PRIMARY''"]
  by (simp add: upt_rec)

text \<open>
  The claim as first stated spoke of every entity list and QID list. With two entities and
  one QID the table cannot be built and \<open>ValueError\<close> is raised, although position 0
  holds an entity and a QID.
\<close>

theorem prune_gold_set_no_fill_counterexample:
  "prune_gold_set [PStr ''ACFT'', PStr ''AIRCRAFT''] [PStr ''Q11436''] ''PRIMARY'' False
     = Inl ValueError"
  by (simp add: prune_gold_set_def)

lemma fill_qids_IndexError:
  "py_index gs_qids PNone = Inr none_idx \<Longrightarrow>
   fill_qids gs_qids = Inl IndexError \<longleftrightarrow>
     (none_idx = 0 \<and> (length gs_qids < 2 \<or> (gs_qids ! 1 = PNone \<and> length gs_qids < 3))) \<or>
     (none_idx = 1 \<and> length gs_qids < 3)"
  by (auto simp: fill_qids_def py_item_1 py_item_2)

lemma prune_IndexError:
  "prune_gold_set gs_entities gs_qids gold_set True = Inl IndexError \<longleftrightarrow>
     PNone \<in> set gs_qids \<and> fill_qids gs_qids = Inl IndexError"
  by (auto simp: prune_gold_set_def Let_def split: sum.splits)

lemma short_list_cases:
  "length xs < 3 \<Longrightarrow> xs = [] \<or> (\<exists>a. xs = [a]) \<or> (\<exists>a b. xs = [a, b])"
  by (cases xs; cases "tl xs"; cases "tl (tl xs)") auto

text \<open>
  C10 (as amended). With \<open>fill_in_qids = True\<close>: when \<open>gs_qids\<close> has fewer than 3
  elements and its first \<open>None\<close> is at position 0 or 1, an index is out of range in every
  case but one, the list \<open>[None, q]\<close> with \<open>q\<close> a QID, where position 1 is read, is not
  \<open>None\<close>, and position 2 is never read. When \<open>gs_qids\<close> has at least 3 elements no
  index is out of range.
\<close>

theorem prune_fill_index_safety:
  "(py_index gs_qids PNone = Inr none_idx \<and> none_idx \<le> 1 \<and> length gs_qids < 3 \<longrightarrow>
      (prune_gold_set gs_entities gs_qids gold_set True = Inl IndexError \<longleftrightarrow>
         \<not> (\<exists>q. gs_qids = [PNone, PStr q]))) \<and>
   (3 \<le> length gs_qids \<longrightarrow>
      prune_gold_set gs_entities gs_qids gold_set True \<noteq> Inl IndexError)"
proof (intro conjI impI)
  assume a: "py_index gs_qids PNone = Inr none_idx \<and> none_idx \<le> 1 \<and> length gs_qids < 3"
  then consider "gs_qids = []" | a where "gs_qids = [a]" | a b where "gs_qids = [a, b]"
    using short_list_cases [of gs_qids] by blast
  then show "prune_gold_set gs_entities gs_qids gold_set True = Inl IndexError \<longleftrightarrow>
         \<not> (\<exists>q. gs_qids = [PNone, PStr q])"
  proof cases
    case 1
    with a show ?thesis by (simp add: py_index_def)
  next
    case 2
    with a show ?thesis
      by (cases a) (auto simp: prune_IndexError fill_qids_def py_index_def py_item_1 split: if_splits)
  next
    case 3
    with a show ?thesis
      by (cases a; cases b)
        (auto simp: prune_IndexError fill_qids_def py_index_def py_item_1 py_item_2
           split: if_splits)
  qed
next
  assume l: "3 \<le> length gs_qids"
  show "prune_gold_set gs_entities gs_qids gold_set True \<noteq> Inl IndexError"
  proof (cases "PNone \<in> set gs_qids")
    case True
    then obtain k where k: "py_index gs_qids PNone = Inr k"
      by (simp add: py_index_def)
    from fill_qids_IndexError [OF k] l show ?thesis
      by (simp add: prune_IndexError)
  next
    case False
    then show ?thesis by (simp add: prune_IndexError)
  qed
qed

theorem prune_fill_index_safety_witness:
  "prune_gold_set [PStr ''A''] [PNone] ''PRIMARY'' True = Inl IndexError \<and>
   prune_gold_set [PStr ''A'', PStr ''B''] [PNone, PNone] ''PRIMARY'' True = Inl IndexError \<and>
   prune_gold_set [PStr ''A'', PStr ''B''] [PStr ''Q1'', PNone] ''PRIMARY'' True = Inl IndexError \<and>
   prune_gold_set [PStr ''A'', PStr ''B''] [PNone, PStr ''Q2''] ''PRIMARY'' True \<noteq> Inl IndexError \<and>
   prune_gold_set [PStr ''A'', PStr ''B'', PNone] [PNone, PNone, PNone] ''PRIMARY'' True
     \<noteq> Inl IndexError"
  using prune_fill_index_safety [of "[PNone]" 0 "[PStr ''A'']" "''PRIMARY''"]
    prune_fill_index_safety [of "[PNone, PNone]" 0 "[PStr ''A'', PStr ''B'']" "''PRIMARY''"]
    prune_fill_index_safety [of "[PStr ''Q1'', PNone]" 1 "[PStr ''A'', PStr ''B'']" "''PRIMARY''"]
    prune_fill_index_safety [of "[PNone, PStr ''Q2'']" 0 "[PStr ''A'', PStr ''B'']" "''PRIMARY''"]
    prune_fill_index_safety [of "[PNone, PNone, PNone]" 0 "[PStr ''A'', PStr ''B'', PNone]" "''PRIMARY''"]
  by (simp add: py_index_def)

text \<open>
  The claim as first stated had every list shorter than 3 with its first \<open>None\<close> at
  position 0 or 1 fail. The list \<open>[None, 'Q1']\<close> does not: the QID at position 1 is copied
  to position 0 and the pruning goes through.
\<close>

theorem prune_fill_index_safety_counterexample:
  "py_index [PNone, PStr ''Q1''] PNone = Inr 0 \<and> length [PNone, PStr ''Q1''] < 3 \<and>
   prune_gold_set [PStr ''A'', PNone] [PNone, PStr ''Q1''] ''EXTENDED'' True
     = Inr ([PStr ''A''], [PStr ''Q1''])"
  by (simp add: py_index_def prune_gold_set_def fill_qids_def py_item_def)

section \<open>Properties of the reformatting loop\<close>

lemma triple_loop_rows:
  "\<forall>t\<in>set ts. 3 \<le> length t \<Longrightarrow>
   triple_loop r ts out_df = Inr (out_df @ map (triple_row r) ts)"
proof (induction ts arbitrary: out_df)
  case Nil
  then show ?case by simp
next
  case (Cons t ts)
  then have "3 \<le> length t" by simp
  then have "py_item t 0 = Inr (t ! 0)" "py_item t 1 = Inr (t ! 1)" "py_item t 2 = Inr (t ! 2)"
    by (auto simp: py_item_def)
  with Cons show ?case by (simp add: triple_row_def)
qed

lemma reformat_loop_rows:
  "\<forall>r\<in>set rs. c119_output r \<noteq> [] \<and> (\<forall>t\<in>set (hd (c119_output r)). 3 \<le> length t) \<Longrightarrow>
   reformat_loop rs out_df = Inr (out_df @ concat (map flat_rows rs))"
proof (induction rs arbitrary: out_df)
  case Nil
  then show ?case by simp
next
  case (Cons r rs)
  then have ne: "c119_output r \<noteq> []"
    and tr: "\<forall>t\<in>set (hd (c119_output r)). 3 \<le> length t" by simp_all
  from ne have first: "py_item (c119_output r) 0 = Inr (hd (c119_output r))"
    by (cases "c119_output r") (simp_all add: py_item_def)
  show ?case
  proof (cases "hd (c119_output r) = []")
    case True
    with first Cons show ?thesis
      by (simp add: flat_rows_def empty_row_def)
  next
    case False
    with first Cons triple_loop_rows [OF tr] show ?thesis
      by (simp add: flat_rows_def)
  qed
qed

lemma triple_loop_short:
  "\<exists>t\<in>set ts. length t < 3 \<Longrightarrow> triple_loop r ts out_df = Inl IndexError"
proof (induction ts arbitrary: out_df)
  case Nil
  then show ?case by simp
next
  case (Cons t ts)
  show ?case
  proof (cases "length t < 3")
    case True
    then show ?thesis
      by (auto simp: py_item_nat py_item_1 py_item_2 py_item_nat [of t 0, simplified])
  next
    case False
    with Cons.prems have "\<exists>t\<in>set ts. length t < 3" by auto
    from Cons.IH [OF this] show ?thesis
      by (auto split: sum.splits dest: py_item_Inl)
  qed
qed

lemma reformat_loop_malformed:
  "\<exists>r\<in>set rs. c119_output r = [] \<or> (\<exists>t\<in>set (hd (c119_output r)). length t < 3) \<Longrightarrow>
   reformat_loop rs out_df = Inl IndexError"
proof (induction rs arbitrary: out_df)
  case Nil
  then show ?case by simp
next
  case (Cons r rs)
  show ?case
  proof (cases "c119_output r = []")
    case True
    then show ?thesis by (simp add: py_item_def)
  next
    case ne: False
    then have first: "py_item (c119_output r) 0 = Inr (hd (c119_output r))"
      by (cases "c119_output r") (simp_all add: py_item_def)
    show ?thesis
    proof (cases "\<exists>t\<in>set (hd (c119_output r)). length t < 3")
      case True
      then have "hd (c119_output r) \<noteq> []" by auto
      with first triple_loop_short [OF True] show ?thesis by simp
    next
      case False
      then have tr: "\<forall>t\<in>set (hd (c119_output r)). 3 \<le> length t"
        by (auto simp: not_less)
      from False ne Cons.prems
      have "\<exists>r\<in>set rs. c119_output r = [] \<or> (\<exists>t\<in>set (hd (c119_output r)). length t < 3)"
        by auto
      from Cons.IH [OF this] first triple_loop_rows [OF tr] show ?thesis
        by simp
    qed
  qed
qed

lemma length_flat_rows: "length (flat_rows r) = max 1 (length (hd (c119_output r)))"
  by (cases "hd (c119_output r)") (simp_all add: flat_rows_def)

text \<open>
  C8. The reformatting loop takes, for every input row, the first element of the parsed
  \<open>c119_output\<close> literal; when that is the empty list it emits one output row whose head,
  relation and tail are \<open>None\<close>, and otherwise one output row for each triple, carrying the
  triple's three components. The output therefore has, summed over the input rows,
  \<open>max(1, number of triples)\<close> rows. This is the result whenever every literal has a
  first element and every tuple in it has three components; on any other input the loop
  stops with \<open>IndexError\<close>.
\<close>

theorem unirel_reformat_rows:
  "unirel_reformat result_df =
     (if \<forall>r\<in>set result_df.
           c119_output r \<noteq> [] \<and> (\<forall>t\<in>set (hd (c119_output r)). 3 \<le> length t)
      then Inr (concat (map flat_rows result_df))
      else Inl IndexError) \<and>
   length (concat (map flat_rows result_df)) =
     (\<Sum>r\<leftarrow>result_df. max 1 (length (hd (c119_output r))))"
proof (intro conjI)
  show "length (concat (map flat_rows result_df)) =
     (\<Sum>r\<leftarrow>result_df. max 1 (length (hd (c119_output r))))"
    by (simp add: length_concat length_flat_rows o_def)
  show "unirel_reformat result_df =
     (if \<forall>r\<in>set result_df.
           c119_output r \<noteq> [] \<and> (\<forall>t\<in>set (hd (c119_output r)). 3 \<le> length t)
      then Inr (concat (map flat_rows result_df))
      else Inl IndexError)"
  proof (cases "\<forall>r\<in>set result_df.
           c119_output r \<noteq> [] \<and> (\<forall>t\<in>set (hd (c119_output r)). 3 \<le> length t)")
    case True
    with reformat_loop_rows [of result_df "[]"] show ?thesis
      by (simp add: unirel_reformat_def)
  next
    case False
    then have "\<exists>r\<in>set result_df.
        c119_output r = [] \<or> (\<exists>t\<in>set (hd (c119_output r)). length t < 3)"
      by (auto simp: not_le)
    from reformat_loop_malformed [OF this, of "[]"] False show ?thesis
      by (simp add: unirel_reformat_def)
  qed
qed

theorem unirel_reformat_rows_witness:
  "unirel_reformat
     [\<lparr>c5 = ''id1'', c119 = ''RQD ALCOHOL'',
       c119_output = [[[''RQD'', ''/business/person/company'', ''ALCOHOL''],
                       [''A'', ''r'', ''B'']]]\<rparr>,
      \<lparr>c5 = ''id2'', c119 = ''NOTHING'', c119_output = [[]]\<rparr>]
   = Inr [\<lparr>c5_id = ''id1'', c119_input = ''RQD ALCOHOL'',
            out_c119_output = [[[''RQD'', ''/business/person/company'', ''ALCOHOL''],
                                [''A'', ''r'', ''B'']]],
            head = PStr ''RQD'', relation = PStr ''/business/person/company'',
            tail = PStr ''ALCOHOL''\<rparr>,
          \<lparr>c5_id = ''id1'', c119_input = ''RQD ALCOHOL'',
            out_c119_output = [[[''RQD'', ''/business/person/company'', ''ALCOHOL''],
                                [''A'', ''r'', ''B'']]],
            head = PStr ''A'', relation = PStr ''r'', tail = PStr ''B''\<rparr>,
          \<lparr>c5_id = ''id2'', c119_input = ''NOTHING'', out_c119_output = [[]],
            head = PNone, relation = PNone, tail = PNone\<rparr>]"
  using unirel_reformat_rows
     [of "[\<lparr>c5 = ''id1'', c119 = ''RQD ALCOHOL'',
       c119_output = [[[''RQD'', ''/business/person/company'', ''ALCOHOL''],
                       [''A'', ''r'', ''B'']]]\<rparr>,
      \<lparr>c5 = ''id2'', c119 = ''NOTHING'', c119_output = [[]]\<rparr>]"]
  by (simp add: flat_rows_def triple_row_def empty_row_def Let_def)

section \<open>Properties of \<open>find_match\<close>\<close>

lemma is_match_valid:
  "matching = ''STRONG'' \<or> matching = ''WEAK'' \<Longrightarrow> fst (is_match ent1 ent2 matching) \<noteq> None"
  by (cases ent1; cases ent2) auto

lemma match_mask_valid:
  "matching = ''STRONG'' \<or> matching = ''WEAK'' \<Longrightarrow>
   None \<notin> set (match_mask tool_entities ent2 matching)"
proof
  assume v: "matching = ''STRONG'' \<or> matching = ''WEAK''"
  assume "None \<in> set (match_mask tool_entities ent2 matching)"
  then obtain e where "None = fst (is_match e ent2 matching)"
    by (auto simp: match_mask_def)
  with is_match_valid [OF v, of e ent2] show False by simp
qed

lemma mask_select_valid:
  assumes "matching = ''STRONG'' \<or> matching = ''WEAK''"
  shows "mask_select (match_mask tool_entities ent2 matching) =
     Inr (filter (\<lambda>j. fst (is_match (tool_entities ! j) ent2 matching) = Some True)
            [0..<length tool_entities])"
proof -
  have "filter (\<lambda>j. match_mask tool_entities ent2 matching ! j = Some True)
          [0..<length tool_entities] =
        filter (\<lambda>j. fst (is_match (tool_entities ! j) ent2 matching) = Some True)
          [0..<length tool_entities]"
    by (rule filter_cong) (simp_all add: match_mask_def)
  with match_mask_valid [OF assms] show ?thesis
    by (simp add: mask_select_def match_mask_def)
qed

lemma find_match_loop_miss:
  assumes v: "matching = ''STRONG'' \<or> matching = ''WEAK''"
  shows "\<forall>i\<in>set idxs. i < length gs_entities \<and>
            (\<forall>j<length tool_entities. \<not> hit tool_entities gs_entities matching j i) \<Longrightarrow>
         find_match_loop gs_entities tool_entities matching idxs = Inr (- 1, - 1)"
proof (induction idxs)
  case Nil
  then show ?case by simp
next
  case (Cons i idxs)
  then have "i < length gs_entities"
    and "\<forall>j<length tool_entities. \<not> hit tool_entities gs_entities matching j i" by simp_all
  then have "filter (\<lambda>j. fst (is_match (tool_entities ! j) (gs_entities ! i) matching) = Some True)
            [0..<length tool_entities] = []"
    by (simp add: filter_empty_conv hit_def)
  with Cons \<open>i < length gs_entities\<close> show ?case
    by (simp add: py_item_nat mask_select_valid [OF v])
qed

lemma find_match_loop_hit:
  assumes v: "matching = ''STRONG'' \<or> matching = ''WEAK''"
    and i: "i < length gs_entities"
    and j: "j < length tool_entities" "hit tool_entities gs_entities matching j i"
           "\<forall>j'<j. \<not> hit tool_entities gs_entities matching j' i"
  shows "\<forall>i'\<in>set pre. i' < length gs_entities \<and>
            (\<forall>j<length tool_entities. \<not> hit tool_entities gs_entities matching j i') \<Longrightarrow>
         find_match_loop gs_entities tool_entities matching (pre @ i # post) = Inr (int i, int j)"
proof (induction pre)
  case Nil
  from hd_filter_upt_first [of j "length tool_entities"
      "\<lambda>j. fst (is_match (tool_entities ! j) (gs_entities ! i) matching) = Some True"] j
  have "filter (\<lambda>j. fst (is_match (tool_entities ! j) (gs_entities ! i) matching) = Some True)
            [0..<length tool_entities] =
        j # filter (\<lambda>j. fst (is_match (tool_entities ! j) (gs_entities ! i) matching) = Some True)
            [Suc j..<length tool_entities]"
    by (simp add: hit_def)
  with i show ?case
    by (simp add: py_item_nat mask_select_valid [OF v])
next
  case (Cons i' pre)
  then have "i' < length gs_entities"
    and "\<forall>j<length tool_entities. \<not> hit tool_entities gs_entities matching j i'" by simp_all
  then have "filter (\<lambda>j. fst (is_match (tool_entities ! j) (gs_entities ! i') matching) = Some True)
            [0..<length tool_entities] = []"
    by (simp add: filter_empty_conv hit_def)
  with Cons \<open>i' < length gs_entities\<close> show ?case
    by (simp add: py_item_nat mask_select_valid [OF v])
qed

lemma find_match_loop_upt:
  assumes v: "matching = ''STRONG'' \<or> matching = ''WEAK''"
    and n: "n \<le> length gs_entities"
  shows "(\<not> (\<exists>i<n. \<exists>j<length tool_entities. hit tool_entities gs_entities matching j i) \<longrightarrow>
            find_match_loop gs_entities tool_entities matching [0..<n] = Inr (- 1, - 1)) \<and>
         ((\<exists>i<n. \<exists>j<length tool_entities. hit tool_entities gs_entities matching j i) \<longrightarrow>
            (\<exists>i j. find_match_loop gs_entities tool_entities matching [0..<n] = Inr (int i, int j) \<and>
               i < n \<and> j < length tool_entities \<and> hit tool_entities gs_entities matching j i \<and>
               (\<forall>i'<i. \<forall>j'<length tool_entities. \<not> hit tool_entities gs_entities matching j' i') \<and>
               (\<forall>j'<j. \<not> hit tool_entities gs_entities matching j' i)))"
proof (intro conjI impI)
  assume "\<not> (\<exists>i<n. \<exists>j<length tool_entities. hit tool_entities gs_entities matching j i)"
  with n have "\<forall>i\<in>set [0..<n]. i < length gs_entities \<and>
            (\<forall>j<length tool_entities. \<not> hit tool_entities gs_entities matching j i)"
    by auto
  from find_match_loop_miss [OF v this]
  show "find_match_loop gs_entities tool_entities matching [0..<n] = Inr (- 1, - 1)" .
next
  let ?H = "\<lambda>i. i < n \<and> (\<exists>j<length tool_entities. hit tool_entities gs_entities matching j i)"
  assume "\<exists>i<n. \<exists>j<length tool_entities. hit tool_entities gs_entities matching j i"
  then have "\<exists>i. ?H i" by blast
  then obtain i where i: "?H i" "\<forall>i'<i. \<not> ?H i'"
    using exists_least_iff [of ?H] by blast
  let ?J = "\<lambda>j. j < length tool_entities \<and> hit tool_entities gs_entities matching j i"
  from i(1) have "\<exists>j. ?J j" by blast
  then obtain j where j: "?J j" "\<forall>j'<j. \<not> ?J j'"
    using exists_least_iff [of ?J] by blast
  from i(1) n have il: "i < length gs_entities" by simp
  from j(1) have jl: "j < length tool_entities"
    and jh: "hit tool_entities gs_entities matching j i" by simp_all
  from j have jfirst: "\<forall>j'<j. \<not> hit tool_entities gs_entities matching j' i" by auto
  from i n have pre: "\<forall>i'\<in>set [0..<i]. i' < length gs_entities \<and>
            (\<forall>j<length tool_entities. \<not> hit tool_entities gs_entities matching j i')"
    by auto
  have "[0..<n] = [0..<i] @ i # [Suc i..<n]"
    using i(1) by (simp add: upt_split_at)
  with find_match_loop_hit [where post = "[Suc i..<n]", OF v il jl jh jfirst pre]
  have "find_match_loop gs_entities tool_entities matching [0..<n] = Inr (int i, int j)"
    by simp
  moreover from i have "\<forall>i'<i. \<forall>j'<length tool_entities. \<not> hit tool_entities gs_entities matching j' i'"
    by auto
  ultimately show "\<exists>i j. find_match_loop gs_entities tool_entities matching [0..<n] = Inr (int i, int j) \<and>
               i < n \<and> j < length tool_entities \<and> hit tool_entities gs_entities matching j i \<and>
               (\<forall>i'<i. \<forall>j'<length tool_entities. \<not> hit tool_entities gs_entities matching j' i') \<and>
               (\<forall>j'<j. \<not> hit tool_entities gs_entities matching j' i)"
    using i(1) j(1) jfirst by blast
qed



section \<open>Properties of the scoring loop\<close>

lemma loc_selected_rows:
  "loc df_tool (selected_rows df_tool g) =
     filter (\<lambda>r. id_col r = g \<and> qid_col r \<noteq> PNone) df_tool"
proof -
  have "filter (\<lambda>r. id_col r = g \<and> qid_col r \<noteq> PNone) (map (\<lambda>i. df_tool ! i) [0..<length df_tool]) =
        map (\<lambda>i. df_tool ! i)
          (filter (\<lambda>i. id_col (df_tool ! i) = g \<and> qid_col (df_tool ! i) \<noteq> PNone)
             [0..<length df_tool])"
    by (simp add: filter_map o_def)
  moreover have "map (\<lambda>i. df_tool ! i) [0..<length df_tool] = df_tool"
    by (rule map_nth)
  ultimately show ?thesis
    by (simp add: loc_def selected_rows_def conj_commute)
qed

lemma upper_all_length: "upper_all upper es = Inr us \<Longrightarrow> length us = length es"
  by (induction es arbitrary: us rule: upper_all.induct) (auto split: sum.splits)

lemma upper_all_total: "PNone \<notin> set es \<Longrightarrow> \<exists>us. upper_all upper es = Inr us"
  by (induction es rule: upper_all.induct) auto

lemma prune_lengths:
  "prune_gold_set gs_entities gs_qids gold_set fill_in_qids = Inr (es, qs) \<Longrightarrow>
   length es = length qs"
  by (auto simp: prune_gold_set_def Let_def split: sum.splits if_splits)

lemma find_match_loop_range:
  "find_match_loop gs_entities tool_entities matching idxs = Inr (i, j) \<Longrightarrow>
   (i = - 1 \<and> j = - 1) \<or>
   (0 \<le> i \<and> nat i \<in> set idxs \<and> nat i < length gs_entities \<and> 0 \<le> j \<and> nat j < length tool_entities)"
proof (induction idxs)
  case Nil
  then show ?case by simp
next
  case (Cons gold_idx rest)
  show ?case
  proof (cases "gold_idx < length gs_entities")
    case False
    with Cons.prems show ?thesis by (simp add: py_item_nat)
  next
    case True
    show ?thesis
    proof (cases "mask_select (match_mask tool_entities (gs_entities ! gold_idx) matching)")
      case (Inl e)
      with True Cons.prems show ?thesis by (simp add: py_item_nat)
    next
      case (Inr matches)
      show ?thesis
      proof (cases "matches = []")
        case True
        with Inr \<open>gold_idx < length gs_entities\<close> Cons show ?thesis
          by (auto simp: py_item_nat)
      next
        case False
        then have "hd matches \<in> set matches" by simp
        moreover from Inr have "set matches \<subseteq> {0..<length tool_entities}"
          by (auto simp: mask_select_def match_mask_def split: if_splits)
        ultimately have "hd matches < length tool_entities" by auto
        with False Inr \<open>gold_idx < length gs_entities\<close> Cons.prems show ?thesis
          by (auto simp: py_item_nat)
      qed
    qed
  qed
qed

lemma find_match_range:
  assumes "find_match gs_entities tool_entities matching gold_set = Inr (i, j)" "i \<noteq> - 1"
  shows "0 \<le> i \<and> nat i < length gs_entities \<and> 0 \<le> j \<and> nat j < length tool_entities"
  using find_match_loop_range [of gs_entities tool_entities matching _ i j] assms
  by (auto simp: find_match_def Let_def)

text \<open>
  C5. When the pruned gold list is the one searched and \<open>find_match\<close> succeeds with gold
  index \<open>i\<close> and tool index \<open>j\<close>, the loop counts the record as a true positive if
  and only if the tool QID at \<open>j\<close> occurs among the gold QIDs at the positions
  \<open>start..i\<close>, where \<open>start = 0\<close> when \<open>gold_set\<close> is \<open>"EXTENDED"\<close> and
  \<open>start = i\<close> otherwise; when it does not occur there the record is counted as a false
  positive.
\<close>

theorem row_step_link:
  assumes p: "prune_gold_set (entity row) (qid row) gold_set fill_in_qids = Inr (gs_entities, gs_qids)"
    and u: "upper_all upper (map ent_col (loc df_tool (selected_rows df_tool (gs_id row)))) = Inr tool_entities"
    and f: "find_match gs_entities tool_entities matching gold_set = Inr (i, j)"
    and s: "i \<noteq> - 1"
  shows "row_step upper df_tool matching gold_set fill_in_qids (TP, FP, FN) row =
     (if \<exists>k. (if gold_set = ''EXTENDED'' then 0 else i) \<le> k \<and> k \<le> i \<and>
              gs_qids ! nat k = map qid_col (loc df_tool (selected_rows df_tool (gs_id row))) ! nat j
      then Inr (TP + 1, FP, FN) else Inr (TP, FP + 1, FN))"
proof -
  let ?tool_qids = "map qid_col (loc df_tool (selected_rows df_tool (gs_id row)))"
  let ?start = "if gold_set = ''EXTENDED'' then 0 else i"
  from find_match_range [OF f s]
  have r: "0 \<le> i" "nat i < length gs_entities" "0 \<le> j" "nat j < length tool_entities"
    by simp_all
  then have ne: "length gs_entities \<noteq> 0" by auto
  from upper_all_length [OF u] r have "nat j < length ?tool_qids" by simp
  with r have q: "py_item ?tool_qids j = Inr (?tool_qids ! nat j)"
    by (simp add: py_item_def)
  from prune_lengths [OF p] r have "nat (i + 1) \<le> length gs_qids" by simp
  with r have "?tool_qids ! nat j \<in> set (py_slice gs_qids ?start (i + 1)) \<longleftrightarrow>
      (\<exists>k. ?start \<le> k \<and> k < i + 1 \<and> gs_qids ! nat k = ?tool_qids ! nat j)"
    by (intro py_slice_mem) auto
  then have m: "?tool_qids ! nat j \<in> set (py_slice gs_qids ?start (i + 1)) \<longleftrightarrow>
      (\<exists>k. ?start \<le> k \<and> k \<le> i \<and> gs_qids ! nat k = ?tool_qids ! nat j)"
    by (simp add: zless_add1_eq order_le_less)
  show ?thesis
    unfolding row_step_def using p u f s ne q m
    by (simp add: Let_def)
qed

theorem row_step_link_witness:
  "prune_gold_set [PStr ''FUEL TANK'', PStr ''TANK'', PNone] [PStr ''Q1'', PStr ''Q2'', PNone]
      ''EXTENDED'' False = Inr ([PStr ''FUEL TANK'', PStr ''TANK''], [PStr ''Q1'', PStr ''Q2'']) \<and>
   upper_all ascii_upper (map ent_col (loc
      [\<lparr>id_col = ''d1'', ent_col = PStr ''tank'', qid_col = PStr ''Q1''\<rparr>,
       \<lparr>id_col = ''d2'', ent_col = PStr ''wing'', qid_col = PStr ''Q9''\<rparr>]
      (selected_rows
         [\<lparr>id_col = ''d1'', ent_col = PStr ''tank'', qid_col = PStr ''Q1''\<rparr>,
          \<lparr>id_col = ''d2'', ent_col = PStr ''wing'', qid_col = PStr ''Q9''\<rparr>] ''d1'')))
     = Inr [PStr ''TANK''] \<and>
   find_match [PStr ''FUEL TANK'', PStr ''TANK''] [PStr ''TANK''] ''STRONG'' ''EXTENDED''
     = Inr (1, 0) \<and>
   row_step ascii_upper
      [\<lparr>id_col = ''d1'', ent_col = PStr ''tank'', qid_col = PStr ''Q1''\<rparr>,
       \<lparr>id_col = ''d2'', ent_col = PStr ''wing'', qid_col = PStr ''Q9''\<rparr>]
      ''STRONG'' ''EXTENDED'' False (0, 0, 0)
      \<lparr>gs_id = ''d1'', entity = [PStr ''FUEL TANK'', PStr ''TANK'', PNone],
        qid = [PStr ''Q1'', PStr ''Q2'', PNone]\<rparr>
     = Inr (1, 0, 0)"
  using row_step_link [where upper = ascii_upper and row = "\<lparr>gs_id = ''d1'', entity = [PStr ''FUEL TANK'', PStr ''TANK'', PNone],
        qid = [PStr ''Q1'', PStr ''Q2'', PNone]\<rparr>"
      and gold_set = "''EXTENDED''" and fill_in_qids = False
      and gs_entities = "[PStr ''FUEL TANK'', PStr ''TANK'']" and gs_qids = "[PStr ''Q1'', PStr ''Q2'']"
      and df_tool = "[\<lparr>id_col = ''d1'', ent_col = PStr ''tank'', qid_col = PStr ''Q1''\<rparr>,
       \<lparr>id_col = ''d2'', ent_col = PStr ''wing'', qid_col = PStr ''Q9''\<rparr>]"
      and tool_entities = "[PStr ''TANK'']" and matching = "''STRONG''" and i = 1 and j = 0
      and TP = 0 and FP = 0 and FN = 0]
  by (simp add: row_step_def prune_gold_set_def loc_def selected_rows_def ascii_upper_tank
      find_match_def py_item_def mask_select_def match_mask_def
      py_slice_def slice_bound_def upt_rec Let_def)

lemma row_step_cases:
  "row_step upper df_tool matching gold_set fill_in_qids (TP, FP, FN) row = Inr c \<Longrightarrow>
   (if pruned_nonempty gold_set fill_in_qids row
    then c = (TP + 1, FP, FN) \<or> c = (TP, FP + 1, FN) \<or> c = (TP, FP, FN + 1)
    else c = (TP, FP, FN))"
  unfolding row_step_def pruned_nonempty_def
  by (auto simp: Let_def split: sum.splits prod.splits if_splits)

lemma count_loop_sum:
  "count_loop upper df_tool matching gold_set fill_in_qids (TP, FP, FN) gs = Inr (TP', FP', FN') \<Longrightarrow>
   TP' + FP' + FN' = TP + FP + FN + length (filter (pruned_nonempty gold_set fill_in_qids) gs)"
proof (induction gs arbitrary: TP FP FN)
  case Nil
  then show ?case by simp
next
  case (Cons row gs)
  from Cons.prems obtain c where
    c: "row_step upper df_tool matching gold_set fill_in_qids (TP, FP, FN) row = Inr c"
    and l: "count_loop upper df_tool matching gold_set fill_in_qids c gs = Inr (TP', FP', FN')"
    by (auto split: sum.splits)
  obtain a b d where abd: "c = (a, b, d)" by (cases c) auto
  from Cons.IH [of a b d] l abd
  have "TP' + FP' + FN' = a + b + d + length (filter (pruned_nonempty gold_set fill_in_qids) gs)"
    by simp
  moreover from row_step_cases [OF c] abd
  have "a + b + d = TP + FP + FN + (if pruned_nonempty gold_set fill_in_qids row then 1 else 0)"
    by (auto split: if_splits)
  ultimately show ?case by simp
qed

text \<open>
  C2. Every gold row whose pruned entity list is not empty adds exactly 1 to exactly one
  of the counters \<open>TP\<close>, \<open>FP\<close>, \<open>FN\<close>, and a row whose pruned entity list is empty
  leaves the three of them unchanged; so when the loop ends, \<open>TP + FP + FN\<close> is the
  number of gold rows with a non-empty pruned entity list.
\<close>

theorem counters_partition:
  "(row_step upper df_tool matching gold_set fill_in_qids (TP, FP, FN) row = Inr c \<longrightarrow>
      (if pruned_nonempty gold_set fill_in_qids row
       then c = (TP + 1, FP, FN) \<or> c = (TP, FP + 1, FN) \<or> c = (TP, FP, FN + 1)
       else c = (TP, FP, FN))) \<and>
   (final_counts upper gs df_tool matching gold_set fill_in_qids = Inr (TP', FP', FN') \<longrightarrow>
      TP' + FP' + FN' = length (filter (pruned_nonempty gold_set fill_in_qids) gs))"
  using row_step_cases [of upper df_tool matching gold_set fill_in_qids TP FP FN row c]
    count_loop_sum [of upper df_tool matching gold_set fill_in_qids 0 0 0 gs TP' FP' FN']
  by (auto simp: final_counts_def)

theorem counters_partition_witness:
  "row_step ascii_upper
      [\<lparr>id_col = ''d1'', ent_col = PStr ''TANK'', qid_col = PStr ''Q7''\<rparr>]
      ''WEAK'' ''PRIMARY'' False (2, 3, 4)
      \<lparr>gs_id = ''d1'', entity = [PStr ''FUEL TANK'', PNone, PNone],
        qid = [PStr ''Q1'', PNone, PNone]\<rparr> = Inr (2, 4, 4) \<and>
   pruned_nonempty ''PRIMARY'' False
      \<lparr>gs_id = ''d1'', entity = [PStr ''FUEL TANK'', PNone, PNone],
        qid = [PStr ''Q1'', PNone, PNone]\<rparr> \<and>
   \<not> pruned_nonempty ''PRIMARY'' False
      \<lparr>gs_id = ''d1'', entity = [PStr ''LOST CONTROL'', PNone, PNone],
        qid = [PNone, PNone, PNone]\<rparr> \<and>
   final_counts ascii_upper
      [\<lparr>gs_id = ''d1'', entity = [PStr ''FUEL TANK'', PNone, PNone],
         qid = [PStr ''Q1'', PNone, PNone]\<rparr>,
       \<lparr>gs_id = ''d1'', entity = [PStr ''LOST CONTROL'', PNone, PNone],
         qid = [PNone, PNone, PNone]\<rparr>,
       \<lparr>gs_id = ''d2'', entity = [PStr ''DITCH'', PNone, PNone],
         qid = [PStr ''Q2'', PNone, PNone]\<rparr>]
      [\<lparr>id_col = ''d1'', ent_col = PStr ''TANK'', qid_col = PStr ''Q7''\<rparr>]
      ''WEAK'' ''PRIMARY'' False = Inr (0, 1, 1)"
  using counters_partition [where upper = ascii_upper and df_tool = "[\<lparr>id_col = ''d1'', ent_col = PStr ''TANK'', qid_col = PStr ''Q7''\<rparr>]"
      and matching = "''WEAK''" and gold_set = "''PRIMARY''" and fill_in_qids = False
      and TP = 2 and FP = 3 and FN = 4
      and row = "\<lparr>gs_id = ''d1'', entity = [PStr ''FUEL TANK'', PNone, PNone],
        qid = [PStr ''Q1'', PNone, PNone]\<rparr>" and c = "(2, 4, 4)"
      and gs = "[\<lparr>gs_id = ''d1'', entity = [PStr ''FUEL TANK'', PNone, PNone],
         qid = [PStr ''Q1'', PNone, PNone]\<rparr>,
       \<lparr>gs_id = ''d1'', entity = [PStr ''LOST CONTROL'', PNone, PNone],
         qid = [PNone, PNone, PNone]\<rparr>,
       \<lparr>gs_id = ''d2'', entity = [PStr ''DITCH'', PNone, PNone],
         qid = [PStr ''Q2'', PNone, PNone]\<rparr>]" and TP' = 0 and FP' = 1 and FN' = 1]
  by (simp add: final_counts_def row_step_def pruned_nonempty_def prune_gold_set_def loc_def
      selected_rows_def ascii_upper_def ascii_upper_char_def find_match_def py_item_def mask_select_def
      match_mask_def py_slice_def slice_bound_def upt_rec Let_def)

lemma fill_qids_total:
  "3 \<le> length qs \<Longrightarrow> PNone \<in> set qs \<Longrightarrow> \<exists>qs'. fill_qids qs = Inr qs' \<and> length qs' = length qs"
  by (auto simp: fill_qids_def py_index_def py_item_1 py_item_2)

lemma prune_total:
  assumes "length es = length qs" "fill_in_qids \<longrightarrow> 3 \<le> length qs"
  shows "\<exists>r. prune_gold_set es qs gold_set fill_in_qids = Inr r"
proof (cases "fill_in_qids \<and> PNone \<in> set qs")
  case True
  with assms fill_qids_total [of qs] obtain qs' where
    "fill_qids qs = Inr qs'" "length qs' = length qs" by auto
  with True assms show ?thesis
    by (simp add: prune_gold_set_def Let_def)
next
  case False
  with assms show ?thesis
    by (auto simp: prune_gold_set_def Let_def)
qed

lemma find_match_total:
  assumes v: "matching = ''STRONG'' \<or> matching = ''WEAK''" and ne: "gs_entities \<noteq> []"
  shows "\<exists>i j. find_match gs_entities tool_entities matching gold_set = Inr (i, j)"
proof -
  define n where "n = (if gold_set = ''EXTENDED'' then length gs_entities else 1)"
  from ne have n: "n \<le> length gs_entities"
    by (cases gs_entities) (auto simp: n_def)
  have fm: "find_match gs_entities tool_entities matching gold_set =
      find_match_loop gs_entities tool_entities matching [0..<n]"
    by (simp add: find_match_def n_def)
  show ?thesis
  proof (cases "\<exists>i<n. \<exists>j<length tool_entities. hit tool_entities gs_entities matching j i")
    case True
    with find_match_loop_upt [OF v n, of tool_entities] obtain i j where
      "find_match_loop gs_entities tool_entities matching [0..<n] = Inr (int i, int j)"
      by blast
    with fm show ?thesis by simp
  next
    case False
    with find_match_loop_upt [OF v n, of tool_entities] fm show ?thesis by simp
  qed
qed

lemma row_step_total:
  assumes v: "matching = ''STRONG'' \<or> matching = ''WEAK''"
    and l: "length (entity row) = length (qid row)" "fill_in_qids \<longrightarrow> 3 \<le> length (qid row)"
    and t: "\<forall>r\<in>set df_tool. qid_col r \<noteq> PNone \<longrightarrow> ent_col r \<noteq> PNone"
  shows "\<exists>c'. row_step upper df_tool matching gold_set fill_in_qids c row = Inr c'"
proof -
  obtain TP FP FN where c: "c = (TP, FP, FN)" using prod_cases3 by blast
  from prune_total [OF l] obtain gs_entities gs_qids where
    p: "prune_gold_set (entity row) (qid row) gold_set fill_in_qids = Inr (gs_entities, gs_qids)"
    by fastforce
  show ?thesis
  proof (cases "gs_entities = []")
    case True
    with p c show ?thesis by (simp add: row_step_def)
  next
    case False
    let ?rows = "loc df_tool (selected_rows df_tool (gs_id row))"
    from t have "PNone \<notin> set (map ent_col ?rows)"
      by (auto simp: loc_selected_rows)
    from upper_all_total [OF this] obtain tool_entities where
      u: "upper_all upper (map ent_col ?rows) = Inr tool_entities" by blast
    from find_match_total [OF v False] obtain i j where
      f: "find_match gs_entities tool_entities matching gold_set = Inr (i, j)" by blast
    show ?thesis
    proof (cases "i = - 1")
      case True
      with p c False u f show ?thesis by (simp add: row_step_def Let_def)
    next
      case ni: False
      from find_match_range [OF f ni] upper_all_length [OF u]
      have "0 \<le> j" "nat j < length (map qid_col ?rows)" by simp_all
      then have "py_item (map qid_col ?rows) j = Inr (map qid_col ?rows ! nat j)"
        by (simp add: py_item_def)
      with p c False u f ni show ?thesis by (simp add: row_step_def Let_def)
    qed
  qed
qed

lemma count_loop_total:
  assumes v: "matching = ''STRONG'' \<or> matching = ''WEAK''"
    and t: "\<forall>r\<in>set df_tool. qid_col r \<noteq> PNone \<longrightarrow> ent_col r \<noteq> PNone"
  shows "\<forall>row\<in>set gs. length (entity row) = length (qid row) \<and>
            (fill_in_qids \<longrightarrow> 3 \<le> length (qid row)) \<Longrightarrow>
         \<exists>c'. count_loop upper df_tool matching gold_set fill_in_qids c gs = Inr c'"
proof (induction gs arbitrary: c)
  case Nil
  show ?case by (intro exI [of _ c]) simp
next
  case (Cons row gs)
  then have "length (entity row) = length (qid row)" "fill_in_qids \<longrightarrow> 3 \<le> length (qid row)"
    by simp_all
  from row_step_total [OF v this t] obtain c1 where
    "row_step upper df_tool matching gold_set fill_in_qids c row = Inr c1" by blast
  moreover from Cons obtain c2 where
    "count_loop upper df_tool matching gold_set fill_in_qids c1 gs = Inr c2" by fastforce
  ultimately show ?case by (intro exI [of _ c2]) simp
qed

lemma example_counts:
  "final_counts ascii_upper
     [\<lparr>gs_id = ''d1'', entity = [PStr ''FUEL TANK'', PNone, PNone], qid = [PStr ''Q1'', PNone, PNone]\<rparr>,
      \<lparr>gs_id = ''d2'', entity = [PStr ''DITCH'', PNone, PNone], qid = [PStr ''Q2'', PNone, PNone]\<rparr>,
      \<lparr>gs_id = ''d3'', entity = [PStr ''TREE'', PNone, PNone], qid = [PStr ''Q3'', PNone, PNone]\<rparr>,
      \<lparr>gs_id = ''d4'', entity = [PStr ''WING'', PNone, PNone], qid = [PStr ''Q4'', PNone, PNone]\<rparr>,
      \<lparr>gs_id = ''d4'', entity = [PStr ''LOST CONTROL'', PNone, PNone], qid = [PNone, PNone, PNone]\<rparr>]
     [\<lparr>id_col = ''d1'', ent_col = PStr ''tank'', qid_col = PStr ''Q1''\<rparr>,
      \<lparr>id_col = ''d2'', ent_col = PStr ''Ditch'', qid_col = PStr ''Q9''\<rparr>,
      \<lparr>id_col = ''d3'', ent_col = PStr ''TREE'', qid_col = PStr ''Q8''\<rparr>]
     ''WEAK'' ''PRIMARY'' False = Inr (1, 2, 1)"
  by code_simp

lemma example_scores:
  "calculate_precision_recall_f1 ascii_upper
     [\<lparr>gs_id = ''d1'', entity = [PStr ''FUEL TANK'', PNone, PNone], qid = [PStr ''Q1'', PNone, PNone]\<rparr>,
      \<lparr>gs_id = ''d2'', entity = [PStr ''DITCH'', PNone, PNone], qid = [PStr ''Q2'', PNone, PNone]\<rparr>,
      \<lparr>gs_id = ''d3'', entity = [PStr ''TREE'', PNone, PNone], qid = [PStr ''Q3'', PNone, PNone]\<rparr>,
      \<lparr>gs_id = ''d4'', entity = [PStr ''WING'', PNone, PNone], qid = [PStr ''Q4'', PNone, PNone]\<rparr>,
      \<lparr>gs_id = ''d4'', entity = [PStr ''LOST CONTROL'', PNone, PNone], qid = [PNone, PNone, PNone]\<rparr>]
     [\<lparr>id_col = ''d1'', ent_col = PStr ''tank'', qid_col = PStr ''Q1''\<rparr>,
      \<lparr>id_col = ''d2'', ent_col = PStr ''Ditch'', qid_col = PStr ''Q9''\<rparr>,
      \<lparr>id_col = ''d3'', ent_col = PStr ''TREE'', qid_col = PStr ''Q8''\<rparr>]
     ''WEAK'' ''PRIMARY'' False =
   Inr (6004799503160661 / 18014398509481984, 1 / 2, 3602879701896397 / 9007199254740992)"
  by code_simp

lemma example_roundings:
  "round_double (1 / 3) = 6004799503160661 / 18014398509481984"
  "round_double (1 / 2) = 1 / 2"
  "round_double (6004799503160661 / 18014398509481984 * (1 / 2)) =
     6004799503160661 / 36028797018963968"
  "round_double (2 * (6004799503160661 / 36028797018963968)) =
     6004799503160661 / 18014398509481984"
  "round_double (6004799503160661 / 18014398509481984 + 1 / 2) =
     3752999689475413 / 4503599627370496"
  "round_double (6004799503160661 / 18014398509481984 / (3752999689475413 / 4503599627370496)) =
     3602879701896397 / 9007199254740992"
  by code_simp+

lemma example_f1:
  "round_double
     (round_double (2 * round_double (6004799503160661 / 18014398509481984 * (1 / 2))) /
      round_double (6004799503160661 / 18014398509481984 + 1 / 2)) =
   3602879701896397 / 9007199254740992"
  by code_simp

text \<open>
  C1 (as amended). On well-formed tables \<open>calculate_precision_recall_f1\<close> returns, and
  whenever it returns, the triple is computed from the final counters in float arithmetic:
  \<open>precision = TP / (TP + FP)\<close> when \<open>TP + FP > 0\<close> and \<open>0\<close> otherwise,
  \<open>recall = TP / (TP + FN)\<close> when \<open>TP + FN > 0\<close> and \<open>0\<close> otherwise, and
  \<open>f1 = 2 * (precision * recall) / (precision + recall)\<close> when
  \<open>precision + recall > 0\<close> and \<open>0\<close> otherwise, every operation rounding to the
  nearest double.
\<close>

theorem precision_recall_f1_formula:
  "(well_formed gs df_tool matching fill_in_qids \<longrightarrow>
      (\<exists>p r f1. calculate_precision_recall_f1 upper gs df_tool matching gold_set fill_in_qids
         = Inr (p, r, f1))) \<and>
   (calculate_precision_recall_f1 upper gs df_tool matching gold_set fill_in_qids = Inr (p, r, f1) \<longrightarrow>
      (\<exists>TP FP FN. final_counts upper gs df_tool matching gold_set fill_in_qids = Inr (TP, FP, FN) \<and>
         p = (if TP + FP > 0 then round_double (of_nat TP / of_nat (TP + FP)) else 0) \<and>
         r = (if TP + FN > 0 then round_double (of_nat TP / of_nat (TP + FN)) else 0) \<and>
         f1 = (if round_double (p + r) > 0
               then round_double (round_double (2 * round_double (p * r)) / round_double (p + r))
               else 0)))"
proof (intro conjI impI)
  assume "well_formed gs df_tool matching fill_in_qids"
  then have "\<exists>c'. count_loop upper df_tool matching gold_set fill_in_qids (0, 0, 0) gs = Inr c'"
    unfolding well_formed_def by (intro count_loop_total) auto
  then show "\<exists>p r f1. calculate_precision_recall_f1 upper gs df_tool matching gold_set fill_in_qids
         = Inr (p, r, f1)"
    by (auto simp: calculate_precision_recall_f1_def final_counts_def Let_def)
next
  assume a: "calculate_precision_recall_f1 upper gs df_tool matching gold_set fill_in_qids = Inr (p, r, f1)"
  then obtain TP FP FN where
    c: "final_counts upper gs df_tool matching gold_set fill_in_qids = Inr (TP, FP, FN)"
    unfolding calculate_precision_recall_f1_def by (auto split: sum.splits)
  define P :: rat where "P = (if TP + FP > 0 then round_double (of_nat TP / of_nat (TP + FP)) else 0)"
  define R :: rat where "R = (if TP + FN > 0 then round_double (of_nat TP / of_nat (TP + FN)) else 0)"
  define F :: rat where "F = (if round_double (P + R) > 0
      then round_double (round_double (2 * round_double (P * R)) / round_double (P + R)) else 0)"
  have "calculate_precision_recall_f1 upper gs df_tool matching gold_set fill_in_qids =
      Inr (P, R, F)"
    unfolding calculate_precision_recall_f1_def c P_def R_def F_def
    by (simp only: sum.case prod.case Let_def)
  with a have "Inr (p, r, f1) = (Inr (P, R, F) :: error + rat \<times> rat \<times> rat)"
    by (simp only:)
  then have "p = P" "r = R" "f1 = F"
    by (simp_all only: sum.inject prod.inject)
  then have p: "p = (if TP + FP > 0 then round_double (of_nat TP / of_nat (TP + FP)) else 0)"
    and r: "r = (if TP + FN > 0 then round_double (of_nat TP / of_nat (TP + FN)) else 0)"
    and "f1 = (if round_double (p + r) > 0
               then round_double (round_double (2 * round_double (p * r)) / round_double (p + r))
               else 0)"
    by (simp_all only: P_def R_def F_def)
  with c
  show "\<exists>TP FP FN. final_counts upper gs df_tool matching gold_set fill_in_qids = Inr (TP, FP, FN) \<and>
         p = (if TP + FP > 0 then round_double (of_nat TP / of_nat (TP + FP)) else 0) \<and>
         r = (if TP + FN > 0 then round_double (of_nat TP / of_nat (TP + FN)) else 0) \<and>
         f1 = (if round_double (p + r) > 0
               then round_double (round_double (2 * round_double (p * r)) / round_double (p + r))
               else 0)"
    by blast
qed

theorem precision_recall_f1_formula_witness:
  "well_formed
     [\<lparr>gs_id = ''d1'', entity = [PStr ''FUEL TANK'', PNone, PNone], qid = [PStr ''Q1'', PNone, PNone]\<rparr>,
      \<lparr>gs_id = ''d2'', entity = [PStr ''DITCH'', PNone, PNone], qid = [PStr ''Q2'', PNone, PNone]\<rparr>,
      \<lparr>gs_id = ''d3'', entity = [PStr ''TREE'', PNone, PNone], qid = [PStr ''Q3'', PNone, PNone]\<rparr>,
      \<lparr>gs_id = ''d4'', entity = [PStr ''WING'', PNone, PNone], qid = [PStr ''Q4'', PNone, PNone]\<rparr>,
      \<lparr>gs_id = ''d4'', entity = [PStr ''LOST CONTROL'', PNone, PNone], qid = [PNone, PNone, PNone]\<rparr>]
     [\<lparr>id_col = ''d1'', ent_col = PStr ''tank'', qid_col = PStr ''Q1''\<rparr>,
      \<lparr>id_col = ''d2'', ent_col = PStr ''Ditch'', qid_col = PStr ''Q9''\<rparr>,
      \<lparr>id_col = ''d3'', ent_col = PStr ''TREE'', qid_col = PStr ''Q8''\<rparr>]
     ''WEAK'' False \<and>
   final_counts ascii_upper
     [\<lparr>gs_id = ''d1'', entity = [PStr ''FUEL TANK'', PNone, PNone], qid = [PStr ''Q1'', PNone, PNone]\<rparr>,
      \<lparr>gs_id = ''d2'', entity = [PStr ''DITCH'', PNone, PNone], qid = [PStr ''Q2'', PNone, PNone]\<rparr>,
      \<lparr>gs_id = ''d3'', entity = [PStr ''TREE'', PNone, PNone], qid = [PStr ''Q3'', PNone, PNone]\<rparr>,
      \<lparr>gs_id = ''d4'', entity = [PStr ''WING'', PNone, PNone], qid = [PStr ''Q4'', PNone, PNone]\<rparr>,
      \<lparr>gs_id = ''d4'', entity = [PStr ''LOST CONTROL'', PNone, PNone], qid = [PNone, PNone, PNone]\<rparr>]
     [\<lparr>id_col = ''d1'', ent_col = PStr ''tank'', qid_col = PStr ''Q1''\<rparr>,
      \<lparr>id_col = ''d2'', ent_col = PStr ''Ditch'', qid_col = PStr ''Q9''\<rparr>,
      \<lparr>id_col = ''d3'', ent_col = PStr ''TREE'', qid_col = PStr ''Q8''\<rparr>]
     ''WEAK'' ''PRIMARY'' False = Inr (1, 2, 1) \<and>
   calculate_precision_recall_f1 ascii_upper
     [\<lparr>gs_id = ''d1'', entity = [PStr ''FUEL TANK'', PNone, PNone], qid = [PStr ''Q1'', PNone, PNone]\<rparr>,
      \<lparr>gs_id = ''d2'', entity = [PStr ''DITCH'', PNone, PNone], qid = [PStr ''Q2'', PNone, PNone]\<rparr>,
      \<lparr>gs_id = ''d3'', entity = [PStr ''TREE'', PNone, PNone], qid = [PStr ''Q3'', PNone, PNone]\<rparr>,
      \<lparr>gs_id = ''d4'', entity = [PStr ''WING'', PNone, PNone], qid = [PStr ''Q4'', PNone, PNone]\<rparr>,
      \<lparr>gs_id = ''d4'', entity = [PStr ''LOST CONTROL'', PNone, PNone], qid = [PNone, PNone, PNone]\<rparr>]
     [\<lparr>id_col = ''d1'', ent_col = PStr ''tank'', qid_col = PStr ''Q1''\<rparr>,
      \<lparr>id_col = ''d2'', ent_col = PStr ''Ditch'', qid_col = PStr ''Q9''\<rparr>,
      \<lparr>id_col = ''d3'', ent_col = PStr ''TREE'', qid_col = PStr ''Q8''\<rparr>]
     ''WEAK'' ''PRIMARY'' False =
   Inr (6004799503160661 / 18014398509481984, 1 / 2, 3602879701896397 / 9007199254740992) \<and>
   round_double (1 / 3) = 6004799503160661 / 18014398509481984 \<and>
   round_double
     (round_double (2 * round_double (6004799503160661 / 18014398509481984 * (1 / 2))) /
      round_double (6004799503160661 / 18014398509481984 + 1 / 2)) =
   3602879701896397 / 9007199254740992"
proof -
  note T = precision_recall_f1_formula [where upper = ascii_upper and gs =
     "[\<lparr>gs_id = ''d1'', entity = [PStr ''FUEL TANK'', PNone, PNone], qid = [PStr ''Q1'', PNone, PNone]\<rparr>,
      \<lparr>gs_id = ''d2'', entity = [PStr ''DITCH'', PNone, PNone], qid = [PStr ''Q2'', PNone, PNone]\<rparr>,
      \<lparr>gs_id = ''d3'', entity = [PStr ''TREE'', PNone, PNone], qid = [PStr ''Q3'', PNone, PNone]\<rparr>,
      \<lparr>gs_id = ''d4'', entity = [PStr ''WING'', PNone, PNone], qid = [PStr ''Q4'', PNone, PNone]\<rparr>,
      \<lparr>gs_id = ''d4'', entity = [PStr ''LOST CONTROL'', PNone, PNone], qid = [PNone, PNone, PNone]\<rparr>]"
     and df_tool = "[\<lparr>id_col = ''d1'', ent_col = PStr ''tank'', qid_col = PStr ''Q1''\<rparr>,
      \<lparr>id_col = ''d2'', ent_col = PStr ''Ditch'', qid_col = PStr ''Q9''\<rparr>,
      \<lparr>id_col = ''d3'', ent_col = PStr ''TREE'', qid_col = PStr ''Q8''\<rparr>]"
     and matching = "''WEAK''" and gold_set = "''PRIMARY''" and fill_in_qids = False
     and p = "6004799503160661 / 18014398509481984" and r = "1 / 2"
     and ?f1.0 = "3602879701896397 / 9007199254740992"]
  have wf: "well_formed
     [\<lparr>gs_id = ''d1'', entity = [PStr ''FUEL TANK'', PNone, PNone], qid = [PStr ''Q1'', PNone, PNone]\<rparr>,
      \<lparr>gs_id = ''d2'', entity = [PStr ''DITCH'', PNone, PNone], qid = [PStr ''Q2'', PNone, PNone]\<rparr>,
      \<lparr>gs_id = ''d3'', entity = [PStr ''TREE'', PNone, PNone], qid = [PStr ''Q3'', PNone, PNone]\<rparr>,
      \<lparr>gs_id = ''d4'', entity = [PStr ''WING'', PNone, PNone], qid = [PStr ''Q4'', PNone, PNone]\<rparr>,
      \<lparr>gs_id = ''d4'', entity = [PStr ''LOST CONTROL'', PNone, PNone], qid = [PNone, PNone, PNone]\<rparr>]
     [\<lparr>id_col = ''d1'', ent_col = PStr ''tank'', qid_col = PStr ''Q1''\<rparr>,
      \<lparr>id_col = ''d2'', ent_col = PStr ''Ditch'', qid_col = PStr ''Q9''\<rparr>,
      \<lparr>id_col = ''d3'', ent_col = PStr ''TREE'', qid_col = PStr ''Q8''\<rparr>]
     ''WEAK'' False"
    by (simp add: well_formed_def)
  from T wf have
    "\<exists>p r f1. calculate_precision_recall_f1 ascii_upper
     [\<lparr>gs_id = ''d1'', entity = [PStr ''FUEL TANK'', PNone, PNone], qid = [PStr ''Q1'', PNone, PNone]\<rparr>,
      \<lparr>gs_id = ''d2'', entity = [PStr ''DITCH'', PNone, PNone], qid = [PStr ''Q2'', PNone, PNone]\<rparr>,
      \<lparr>gs_id = ''d3'', entity = [PStr ''TREE'', PNone, PNone], qid = [PStr ''Q3'', PNone, PNone]\<rparr>,
      \<lparr>gs_id = ''d4'', entity = [PStr ''WING'', PNone, PNone], qid = [PStr ''Q4'', PNone, PNone]\<rparr>,
      \<lparr>gs_id = ''d4'', entity = [PStr ''LOST CONTROL'', PNone, PNone], qid = [PNone, PNone, PNone]\<rparr>]
     [\<lparr>id_col = ''d1'', ent_col = PStr ''tank'', qid_col = PStr ''Q1''\<rparr>,
      \<lparr>id_col = ''d2'', ent_col = PStr ''Ditch'', qid_col = PStr ''Q9''\<rparr>,
      \<lparr>id_col = ''d3'', ent_col = PStr ''TREE'', qid_col = PStr ''Q8''\<rparr>]
     ''WEAK'' ''PRIMARY'' False = Inr (p, r, f1)"
    by blast
  with wf example_counts example_scores example_roundings(1) example_f1
  show ?thesis by blast
qed

text \<open>
  The claim as first stated spoke of every gold and tool table. A tool row that carries a
  QID for the document but no entity string (an empty cell of the entity column) is
  selected, and \<open>upper\<close> on it raises: nothing is returned.
\<close>

theorem precision_recall_f1_formula_counterexample:
  "calculate_precision_recall_f1 ascii_upper
     [\<lparr>gs_id = ''d1'', entity = [PStr ''ACFT'', PNone, PNone], qid = [PStr ''Q11436'', PNone, PNone]\<rparr>]
     [\<lparr>id_col = ''d1'', ent_col = PNone, qid_col = PStr ''Q11436''\<rparr>]
     ''WEAK'' ''PRIMARY'' False = Inl AttributeError"
  by (simp add: calculate_precision_recall_f1_def final_counts_def row_step_def
      prune_gold_set_def loc_def selected_rows_def upt_rec Let_def)




end
